theory Spec2Isabelle
  imports Main "HOL-Library.AList"
begin

section \<open>The schema-driven form engine of DynamicForm\<close>

text \<open>
  The engine lives in the component \<open>DynamicForm\<close>: the key helper \<open>getFieldKey\<close>, the
  initialising effect, \<open>handleFieldChange\<close>, \<open>checkDependentSections\<close>, \<open>validateForm\<close> and
  \<open>handleSubmit\<close>. The component's four state cells are threaded explicitly through every
  operation; a thrown \<open>TypeError\<close> is the left summand of the result.

  JavaScript strings are modelled as \<open>string\<close>: one \<open>char\<close> per UTF-16 code unit, for
  strings whose code units are below 256.
\<close>

subsection \<open>Schema types (form.types.ts)\<close>

text \<open>
  Only the properties the engine reads are kept. Records cannot share field names, so
  each property carries a prefix: \<open>f_\<close> for FormField, \<open>ss_\<close> for SubSection, \<open>s_\<close> for
  Section, \<open>d_\<close> for DependentSectionDetail, \<open>tw_\<close> for TemplateWrap. The property
  \<open>order\<close> is \<open>number | null\<close>; schema ordering indexes are integers.
\<close>

record FormField =
  f_value :: string
  f_valueMinLength :: "string option"
  f_valueLength :: "string option"
  f_sfField :: string
  f_order :: "int option"
  f_name :: string
  f_mandatory :: bool
  f_isHidden :: bool
  f_isFutureDate :: bool
  f_inputType :: string
  f_fieldType :: string

record SubSection =
  ss_name :: string
  ss_minImageCapture :: int
  ss_maxImageCapture :: int
  ss_isPrePopulateData :: bool
  ss_fields :: "FormField list"

record Section =
  s_subSections :: "SubSection list"
  s_name :: string
  s_isPrePopulateData :: bool

record DependentSectionDetail =
  d_value :: string
  d_sectionName :: string
  d_fieldName :: string
  d_dependentSectionValue :: string

record TemplateWrap =
  tw_sections :: "Section list"
  tw_dependentSectionsDetails :: "DependentSectionDetail list"

text \<open>\<open>FormData\<close>: the engine only follows \<open>formData.data.templateWrap\<close>.\<close>

record FormData =
  fd_templateWrap :: TemplateWrap

subsection \<open>Runtime values\<close>

text \<open>
  \<open>FormValues\<close> is \<open>{[key: string]: any}\<close>. The widgets store strings, booleans (checkbox),
  single \<open>File\<close> objects and arrays of attachments. A \<open>File\<close> is an opaque object, named
  by a number.
\<close>

datatype jsval = JStr string | JBool bool | JFile nat | JArr "jsval list"

datatype js_error = TypeError

type_synonym FormValues = "string \<rightharpoonup> jsval"

text \<open>
  \<open>FormErrors\<close> is an object whose key order is observed by \<open>Object.keys\<close>: insertion
  order (no key is an array index, every key contains the delimiter). Assigning to an
  existing key keeps its position: \<open>AList.update\<close>.
\<close>

type_synonym FormErrors = "(string \<times> string) list"

record form_state =
  formValues :: FormValues
  errors :: FormErrors
  visibleSections :: "string set"
  expandedSections :: "string set"

subsection \<open>String primitives\<close>

definition nth_opt :: "'a list \<Rightarrow> nat \<Rightarrow> 'a option" where
  "nth_opt xs i = (if i < length xs then Some (xs ! i) else None)"

definition startsWith :: "string \<Rightarrow> string \<Rightarrow> bool" where
  "startsWith pat s = (take (length pat) s = pat)"

text \<open>\<open>s.includes(pat)\<close> on strings.\<close>

fun js_includes :: "string \<Rightarrow> string \<Rightarrow> bool" where
  "js_includes [] pat = (pat = [])"
| "js_includes (c # cs) pat = (startsWith pat (c # cs) \<or> js_includes cs pat)"

definition digitChar :: "nat \<Rightarrow> char" where
  "digitChar d = ''0123456789'' ! (d mod 10)"

fun show_nat :: "nat \<Rightarrow> string" where
  "show_nat n = (if n < 10 then [digitChar n] else show_nat (n div 10) @ [digitChar (n mod 10)])"

declare show_nat.simps [simp del]

text \<open>
  A number inside a template literal. The schema's numbers (order index, image counts)
  are taken to be integers, and an integer is printed in plain decimal, as JavaScript does
  for every integer of magnitude below \<open>10^21\<close>; from there on JavaScript prints an
  exponent form, which lies outside this embedding.
\<close>

definition show_int :: "int \<Rightarrow> string" where
  "show_int i = (if i < 0 then CHR ''-'' # show_nat (nat (- i)) else show_nat (nat i))"

text \<open>
  \<open>s.split('__')\<close>: scan from the left; where the separator matches, close the current
  piece and continue behind the separator. The first argument is the piece being built.
\<close>

fun splitDelim :: "string \<Rightarrow> string \<Rightarrow> string list" where
  "splitDelim cur [] = [cur]"
| "splitDelim cur [c] = [cur @ [c]]"
| "splitDelim cur (c # d # rest) =
     (if c = CHR ''_'' \<and> d = CHR ''_'' then cur # splitDelim [] rest
      else splitDelim (cur @ [c]) (d # rest))"

definition js_split :: "string \<Rightarrow> string list" where
  "js_split s = splitDelim [] s"

subsection \<open>getFieldKey\<close>

text \<open>\<open>${field.sfField || field.order}\<close>: the empty string is falsy; \<open>null\<close> prints as "null".\<close>

definition refOrOrder :: "FormField \<Rightarrow> string" where
  "refOrOrder field =
     (if f_sfField field \<noteq> [] then f_sfField field
      else (case f_order field of None \<Rightarrow> ''null'' | Some n \<Rightarrow> show_int n))"

definition getFieldKey :: "string \<Rightarrow> string \<Rightarrow> FormField \<Rightarrow> string" where
  "getFieldKey sectionName subSectionName field =
     sectionName @ ''__'' @ subSectionName @ ''__'' @ f_name field @ ''__'' @ refOrOrder field"

subsection \<open>The section / subsection / field walk\<close>

text \<open>
  The nested \<open>forEach\<close> loops over sections, subsections and fields, in list order, as the
  list of the triples they visit.
\<close>

definition subSectionTriples :: "Section \<Rightarrow> SubSection \<Rightarrow> (Section \<times> SubSection \<times> FormField) list" where
  "subSectionTriples section subSection = map (\<lambda>field. (section, subSection, field)) (ss_fields subSection)"

definition sectionTriples :: "Section \<Rightarrow> (Section \<times> SubSection \<times> FormField) list" where
  "sectionTriples section = concat (map (subSectionTriples section) (s_subSections section))"

definition walkFields :: "FormData \<Rightarrow> (Section \<times> SubSection \<times> FormField) list" where
  "walkFields fd = concat (map sectionTriples (tw_sections (fd_templateWrap fd)))"

definition keyOf :: "Section \<times> SubSection \<times> FormField \<Rightarrow> string" where
  "keyOf t = (case t of (section, subSection, field) \<Rightarrow>
     getFieldKey (s_name section) (ss_name subSection) field)"

text \<open>The four components a key is composed from.\<close>

definition keyParts :: "Section \<times> SubSection \<times> FormField \<Rightarrow> string \<times> string \<times> string \<times> string" where
  "keyParts t = (case t of (section, subSection, field) \<Rightarrow>
     (s_name section, ss_name subSection, f_name field, refOrOrder field))"

definition allFieldKeys :: "FormData \<Rightarrow> string list" where
  "allFieldKeys fd = map keyOf (walkFields fd)"

text \<open>
  A name is safe for the delimiter when it neither contains \<open>__\<close> nor ends in an
  underscore (an underscore at the end would join the delimiter that follows it).
\<close>

definition containsDelim :: "string \<Rightarrow> bool" where
  "containsDelim s = js_includes s ''__''"

definition delimSafe :: "string \<Rightarrow> bool" where
  "delimSafe s = (\<not> containsDelim s \<and> (s = [] \<or> last s \<noteq> CHR ''_''))"

definition namesDelimSafe :: "Section \<times> SubSection \<times> FormField \<Rightarrow> bool" where
  "namesDelimSafe t = (case t of (section, subSection, field) \<Rightarrow>
     delimSafe (s_name section) \<and> delimSafe (ss_name subSection) \<and> delimSafe (f_name field))"

subsection \<open>Component state and the initialising effect\<close>

text \<open>The four \<open>useState\<close> cells, at their initial values.\<close>

definition initialState :: form_state where
  "initialState = \<lparr> formValues = Map.empty, errors = [], visibleSections = {}, expandedSections = {} \<rparr>"

text \<open>\<open>field.value || ''\<close> for the declared string \<open>value\<close>.\<close>

definition valueOrEmpty :: "string \<Rightarrow> string" where
  "valueOrEmpty s = (if s \<noteq> [] then s else [])"

definition initField :: "Section \<Rightarrow> SubSection \<Rightarrow> FormField \<Rightarrow> FormValues \<Rightarrow> FormValues" where
  "initField section subSection field initialValues =
     initialValues(getFieldKey (s_name section) (ss_name subSection) field \<mapsto> JStr (valueOrEmpty (f_value field)))"

definition initSubSection :: "Section \<Rightarrow> SubSection \<Rightarrow> FormValues \<times> string set \<Rightarrow> FormValues \<times> string set" where
  "initSubSection section subSection acc = (case acc of (initialValues, initialExpanded) \<Rightarrow>
     (fold (initField section subSection) (ss_fields subSection) initialValues,
      (if ss_isPrePopulateData subSection
       then insert (s_name section @ ''-'' @ ss_name subSection) initialExpanded
       else initialExpanded)))"

definition initSection :: "Section \<Rightarrow> FormValues \<times> string set \<times> string set \<Rightarrow> FormValues \<times> string set \<times> string set" where
  "initSection section acc = (case acc of (initialValues, initialVisible, initialExpanded) \<Rightarrow>
     (case fold (initSubSection section) (s_subSections section)
             (initialValues,
              (if s_isPrePopulateData section then insert (s_name section) initialExpanded
               else initialExpanded)) of
        (vals, expanded) \<Rightarrow> (vals, insert (s_name section) initialVisible, expanded)))"

text \<open>The effect body: nothing happens without a schema; otherwise three fresh
  containers are filled by the walk and replace the state cells.\<close>

definition initialize :: "FormData option \<Rightarrow> form_state \<Rightarrow> form_state" where
  "initialize formData st = (case formData of
       None \<Rightarrow> st
     | Some fd \<Rightarrow>
        (case fold initSection (tw_sections (fd_templateWrap fd)) (Map.empty, {}, {}) of
           (initialValues, initialVisible, initialExpanded) \<Rightarrow>
             st \<lparr> formValues := initialValues, visibleSections := initialVisible,
                  expandedSections := initialExpanded \<rparr>))"

text \<open>One step of the initialising walk, on a triple of the flattened walk.\<close>

definition initTriple :: "Section \<times> SubSection \<times> FormField \<Rightarrow> FormValues \<Rightarrow> FormValues" where
  "initTriple t vals = (case t of (a, b, f) \<Rightarrow> initField a b f vals)"

subsection \<open>checkDependentSections and handleFieldChange\<close>

text \<open>The clearing loop: every field of every section with the dependent name gets \<open>''\<close>.\<close>

definition clearField :: "Section \<Rightarrow> SubSection \<Rightarrow> FormField \<Rightarrow> FormValues \<Rightarrow> FormValues" where
  "clearField section subSection field prev =
     prev(getFieldKey (s_name section) (ss_name subSection) field \<mapsto> JStr [])"

definition clearSubSection :: "Section \<Rightarrow> SubSection \<Rightarrow> FormValues \<Rightarrow> FormValues" where
  "clearSubSection section subSection prev = fold (clearField section subSection) (ss_fields subSection) prev"

definition clearSection :: "string \<Rightarrow> Section \<Rightarrow> FormValues \<Rightarrow> FormValues" where
  "clearSection dependentSectionValue section prev =
     (if s_name section = dependentSectionValue
      then fold (clearSubSection section) (s_subSections section) prev
      else prev)"

text \<open>
  \<open>fieldParts[0]\<close> and \<open>fieldParts[3]\<close> are \<open>undefined\<close> (here \<open>None\<close>) when the key has too few
  parts; \<open>===\<close> against a rule's string is then false. \<open>value === rule.value\<close> holds exactly
  for a string value with the same content.
\<close>

definition applyRule :: "FormData \<Rightarrow> string option \<Rightarrow> string option \<Rightarrow> jsval \<Rightarrow>
    DependentSectionDetail \<Rightarrow> form_state \<Rightarrow> form_state" where
  "applyRule fd sectionName fieldName v rule st =
     (if Some (d_sectionName rule) = sectionName \<and> Some (d_fieldName rule) = fieldName then
        (if v = JStr (d_value rule)
         then st \<lparr> visibleSections := insert (d_dependentSectionValue rule) (visibleSections st) \<rparr>
         else st \<lparr> visibleSections := visibleSections st - {d_dependentSectionValue rule},
                   formValues := fold (clearSection (d_dependentSectionValue rule))
                                   (tw_sections (fd_templateWrap fd)) (formValues st) \<rparr>)
      else st)"

definition checkDependentSections :: "FormData option \<Rightarrow> string \<Rightarrow> jsval \<Rightarrow> form_state \<Rightarrow> form_state" where
  "checkDependentSections formData fieldKey v st = (case formData of
       None \<Rightarrow> st
     | Some fd \<Rightarrow>
        (let dependentRules = tw_dependentSectionsDetails (fd_templateWrap fd);
             fieldParts = js_split fieldKey;
             sectionName = nth_opt fieldParts 0;
             fieldName = nth_opt fieldParts 3
         in fold (applyRule fd sectionName fieldName v) dependentRules st))"

text \<open>The condition of line 84, as a predicate of the changed key and a rule.\<close>

definition ruleMatches :: "string \<Rightarrow> DependentSectionDetail \<Rightarrow> bool" where
  "ruleMatches fieldKey rule =
     (Some (d_sectionName rule) = nth_opt (js_split fieldKey) 0
      \<and> Some (d_fieldName rule) = nth_opt (js_split fieldKey) 3)"

text \<open>\<open>errors[fieldKey]\<close> as a condition: a message is truthy unless it is empty.\<close>

definition hasError :: "FormErrors \<Rightarrow> string \<Rightarrow> bool" where
  "hasError errs fieldKey = (case map_of errs fieldKey of None \<Rightarrow> False | Some m \<Rightarrow> m \<noteq> [])"

definition handleFieldChange :: "FormData option \<Rightarrow> string \<Rightarrow> jsval \<Rightarrow> form_state \<Rightarrow> form_state" where
  "handleFieldChange formData fieldKey v st =
     (let st1 = st \<lparr> formValues := (formValues st)(fieldKey \<mapsto> v) \<rparr>;
          st2 = (if hasError (errors st) fieldKey
                 then st1 \<lparr> errors := AList.delete fieldKey (errors st1) \<rparr>
                 else st1)
      in (case formData of None \<Rightarrow> st2 | Some fd \<Rightarrow> checkDependentSections formData fieldKey v st2))"

text \<open>Every stored message is non-empty, as every message \<open>validateForm\<close> writes is.\<close>

definition messagesNonEmpty :: "FormErrors \<Rightarrow> bool" where
  "messagesNonEmpty errs = list_all (\<lambda>p. snd p \<noteq> []) errs"

subsection \<open>JavaScript operations used by validateForm\<close>

text \<open>White space of \<open>trim\<close>, of \<open>\s\<close> and of the numeric string grammar, below code unit 256.\<close>

definition isWhiteSpace :: "char \<Rightarrow> bool" where
  "isWhiteSpace c = (c \<in> set [CHR 0x09, CHR 0x0A, CHR 0x0B, CHR 0x0C, CHR 0x0D, CHR 0x20, CHR 0xA0])"

definition trimString :: "string \<Rightarrow> string" where
  "trimString s = rev (dropWhile isWhiteSpace (rev (dropWhile isWhiteSpace s)))"

definition isDigit :: "char \<Rightarrow> bool" where
  "isDigit c = (c \<in> set ''0123456789'')"

text \<open>\<open>toLowerCase\<close>: the ASCII and the Latin-1 capital letters move up by 32.\<close>

definition toLowerChar :: "char \<Rightarrow> char" where
  "toLowerChar c = (let n = of_char c :: nat in
     if (65 \<le> n \<and> n \<le> 90) \<or> (192 \<le> n \<and> n \<le> 222 \<and> n \<noteq> 215) then char_of (n + 32) else c)"

definition toLowerCase :: "string \<Rightarrow> string" where
  "toLowerCase s = map toLowerChar s"

text \<open>Truthiness; an array and an object are truthy, also the empty array.\<close>

definition js_truthy :: "jsval \<Rightarrow> bool" where
  "js_truthy v = (case v of JStr s \<Rightarrow> s \<noteq> [] | JBool b \<Rightarrow> b | JFile _ \<Rightarrow> True | JArr _ \<Rightarrow> True)"

text \<open>\<open>formValues[fieldKey] || ''\<close>: a missing key reads \<open>undefined\<close>.\<close>

definition lookupOrEmpty :: "FormValues \<Rightarrow> string \<Rightarrow> jsval" where
  "lookupOrEmpty vals fieldKey =
     (case vals fieldKey of None \<Rightarrow> JStr [] | Some v \<Rightarrow> if js_truthy v then v else JStr [])"

text \<open>\<open>value.trim()\<close>: only a string has the method; calling \<open>undefined\<close> throws.\<close>

definition js_trim :: "jsval \<Rightarrow> js_error + string" where
  "js_trim v = (case v of JStr s \<Rightarrow> Inr (trimString s) | _ \<Rightarrow> Inl TypeError)"

text \<open>\<open>value.length\<close>: \<open>undefined\<close> (here \<open>None\<close>) on a boolean and on a File.\<close>

definition js_length :: "jsval \<Rightarrow> nat option" where
  "js_length v = (case v of JStr s \<Rightarrow> Some (length s) | JArr xs \<Rightarrow> Some (length xs) | _ \<Rightarrow> None)"

fun joinComma :: "string list \<Rightarrow> string" where
  "joinComma [] = []"
| "joinComma [x] = x"
| "joinComma (x # y # r) = x @ '','' @ joinComma (y # r)"

fun js_toString :: "jsval \<Rightarrow> string" where
  "js_toString (JStr s) = s"
| "js_toString (JBool b) = (if b then ''true'' else ''false'')"
| "js_toString (JFile n) = ''[object File]''"
| "js_toString (JArr xs) = joinComma (map js_toString xs)"

text \<open>\<open>parseInt(s)\<close>: leading white space, a sign, a hexadecimal prefix, then the longest
  run of digits; \<open>NaN\<close> is \<open>None\<close>. The result is the exact integer, which is JavaScript's
  result up to \<open>2^53\<close>; beyond, JavaScript rounds to the nearest double.\<close>

definition radixDigit :: "nat \<Rightarrow> char \<Rightarrow> nat option" where
  "radixDigit radix c = (let n = of_char c :: nat;
        d = (if 48 \<le> n \<and> n \<le> 57 then Some (n - 48)
             else if 97 \<le> n \<and> n \<le> 122 then Some (n - 87)
             else if 65 \<le> n \<and> n \<le> 90 then Some (n - 55) else None)
     in case d of None \<Rightarrow> None | Some x \<Rightarrow> if x < radix then Some x else None)"

definition digitsValue :: "nat \<Rightarrow> string \<Rightarrow> nat" where
  "digitsValue radix ds = foldl (\<lambda>acc c. acc * radix + (case radixDigit radix c of None \<Rightarrow> 0 | Some d \<Rightarrow> d)) 0 ds"

definition parseInt :: "string \<Rightarrow> int option" where
  "parseInt s =
     (let s1 = dropWhile isWhiteSpace s;
          neg = startsWith ''-'' s1 \<and> s1 \<noteq> [];
          s2 = (if (startsWith ''-'' s1 \<or> startsWith ''+'' s1) \<and> s1 \<noteq> [] then tl s1 else s1);
          hex = (startsWith ''0x'' s2 \<or> startsWith ''0X'' s2) \<and> 2 \<le> length s2;
          radix = (if hex then 16 else 10);
          s3 = (if hex then drop 2 s2 else s2);
          ds = takeWhile (\<lambda>c. radixDigit radix c \<noteq> None) s3
      in if ds = [] then None
         else Some ((if neg then - 1 else 1) * int (digitsValue radix ds)))"

text \<open>\<open>isNaN(Number(value))\<close>: the numeric string grammar decides it; no number is computed.\<close>

definition stripSign :: "string \<Rightarrow> string" where
  "stripSign s = (case s of [] \<Rightarrow> [] | c # r \<Rightarrow> if c = CHR ''+'' \<or> c = CHR ''-'' then r else s)"

definition isExponentPart :: "string \<Rightarrow> bool" where
  "isExponentPart s = (case s of [] \<Rightarrow> False
     | c # r \<Rightarrow> (c = CHR ''e'' \<or> c = CHR ''E'') \<and> stripSign r \<noteq> [] \<and> list_all isDigit (stripSign r))"

definition isUnsignedDecimal :: "string \<Rightarrow> bool" where
  "isUnsignedDecimal s =
     (s = ''Infinity'' \<or>
      (let ip = takeWhile isDigit s; r1 = dropWhile isDigit s in
       case r1 of
         [] \<Rightarrow> ip \<noteq> []
       | c # t \<Rightarrow>
           if c = CHR ''.''
           then (let fp = takeWhile isDigit t; r2 = dropWhile isDigit t
                 in (ip \<noteq> [] \<or> fp \<noteq> []) \<and> (r2 = [] \<or> isExponentPart r2))
           else ip \<noteq> [] \<and> isExponentPart r1))"

definition isNonDecimalInteger :: "string \<Rightarrow> bool" where
  "isNonDecimalInteger s =
     (let body = drop 2 s in
      body \<noteq> [] \<and>
      ((take 2 s = ''0x'' \<or> take 2 s = ''0X'') \<and> list_all (\<lambda>c. radixDigit 16 c \<noteq> None) body
       \<or> (take 2 s = ''0o'' \<or> take 2 s = ''0O'') \<and> list_all (\<lambda>c. radixDigit 8 c \<noteq> None) body
       \<or> (take 2 s = ''0b'' \<or> take 2 s = ''0B'') \<and> list_all (\<lambda>c. radixDigit 2 c \<noteq> None) body))"

definition isNumericString :: "string \<Rightarrow> bool" where
  "isNumericString s = (let t = trimString s in
     t = [] \<or> isUnsignedDecimal (stripSign t) \<or> isNonDecimalInteger t)"

definition numberIsNaN :: "jsval \<Rightarrow> bool" where
  "numberIsNaN v = (case v of JBool _ \<Rightarrow> False | _ \<Rightarrow> \<not> isNumericString (js_toString v))"

text \<open>
  The \<open>Date\<close> built-in is a parameter of the model: \<open>rt_dateValue v\<close> is the time value of
  \<open>new Date(v)\<close> in milliseconds (\<open>None\<close> for an invalid date, whose time value is \<open>NaN\<close>),
  and \<open>rt_now\<close> is the time value \<open>new Date()\<close> reads during the validation pass.
\<close>

record js_runtime =
  rt_dateValue :: "jsval \<Rightarrow> int option"
  rt_now :: int

text \<open>\<open>Array.isArray(value) ? value : (value ? [value] : [])\<close>.\<close>

definition listCoerce :: "jsval \<Rightarrow> jsval list" where
  "listCoerce v = (case v of JArr xs \<Rightarrow> xs | _ \<Rightarrow> if js_truthy v then [v] else [])"

text \<open>\<open>value.includes('@')\<close>: a substring test on a string, an element test on an array,
  a call of \<open>undefined\<close> on anything else.\<close>

definition includesAt :: "jsval \<Rightarrow> js_error + bool" where
  "includesAt v = (case v of JStr s \<Rightarrow> Inr (js_includes s ''@'')
     | JArr xs \<Rightarrow> Inr (JStr ''@'' \<in> set xs) | _ \<Rightarrow> Inl TypeError)"

text \<open>The pattern \<open>/^[^\s@]+@[^\s@]+\.[^\s@]+$/\<close>.\<close>

definition isAddrChar :: "char \<Rightarrow> bool" where
  "isAddrChar c = (\<not> isWhiteSpace c \<and> c \<noteq> CHR ''@'')"

definition emailRegexTest :: "string \<Rightarrow> bool" where
  "emailRegexTest s =
     (let a = takeWhile isAddrChar s; r = dropWhile isAddrChar s in
      a \<noteq> [] \<and>
      (case r of [] \<Rightarrow> False
       | c # t \<Rightarrow> c = CHR ''@'' \<and> list_all isAddrChar t \<and> CHR ''.'' \<in> set (butlast (tl t))))"

text \<open>\<open>value.replace(/\D/g, '')\<close> and the pattern \<open>/^[0-9]{10}$/\<close>.\<close>

definition stripNonDigits :: "jsval \<Rightarrow> js_error + string" where
  "stripNonDigits v = (case v of JStr s \<Rightarrow> Inr (filter isDigit s) | _ \<Rightarrow> Inl TypeError)"

definition phoneRegexTest :: "string \<Rightarrow> bool" where
  "phoneRegexTest s = (length s = 10 \<and> list_all isDigit s)"

subsection \<open>validateForm\<close>

text \<open>
  One statement \<open>if (cond) newErrors[fieldKey] = msg\<close>: evaluating the condition may
  throw; otherwise the message is assigned or the map is left alone.
\<close>

definition assignWhen :: "js_error + bool \<Rightarrow> string \<Rightarrow> string \<Rightarrow> FormErrors \<Rightarrow> js_error + FormErrors" where
  "assignWhen cond fieldKey msg newErrors = (case cond of
       Inl x \<Rightarrow> Inl x
     | Inr b \<Rightarrow> Inr (if b then AList.update fieldKey msg newErrors else newErrors))"

text \<open>Statements in sequence; a throw ends the sequence.\<close>

fun runChecks :: "(FormErrors \<Rightarrow> js_error + FormErrors) list \<Rightarrow> FormErrors \<Rightarrow> js_error + FormErrors" where
  "runChecks [] newErrors = Inr newErrors"
| "runChecks (c # cs) newErrors = (case c newErrors of Inl x \<Rightarrow> Inl x | Inr e \<Rightarrow> runChecks cs e)"

text \<open>A block \<open>if (guard) { ... }\<close> around statements.\<close>

definition whenBlock :: "bool \<Rightarrow> (FormErrors \<Rightarrow> js_error + FormErrors) list \<Rightarrow> FormErrors \<Rightarrow> js_error + FormErrors" where
  "whenBlock guard body newErrors = (if guard then runChecks body newErrors else Inr newErrors)"

text \<open>Lines 135-137.\<close>

definition checkMandatory :: "FormField \<Rightarrow> string \<Rightarrow> jsval \<Rightarrow> FormErrors \<Rightarrow> js_error + FormErrors" where
  "checkMandatory field fieldKey v =
     assignWhen (if f_mandatory field
                 then (case js_trim v of Inl x \<Rightarrow> Inl x | Inr t \<Rightarrow> Inr (t = []))
                 else Inr False)
       fieldKey (f_name field @ '' is required'')"

text \<open>Lines 140-145 and 147-152. A comparison with \<open>undefined\<close> or \<open>NaN\<close> is false.\<close>

definition checkMaxLength :: "FormField \<Rightarrow> string \<Rightarrow> jsval \<Rightarrow> FormErrors \<Rightarrow> js_error + FormErrors" where
  "checkMaxLength field fieldKey v =
     (case f_valueLength field of
        None \<Rightarrow> Inr
      | Some valueLength \<Rightarrow>
          whenBlock (js_truthy v \<and> valueLength \<noteq> [])
            [case parseInt valueLength of
               None \<Rightarrow> Inr
             | Some maxLength \<Rightarrow>
                 assignWhen (Inr (case js_length v of None \<Rightarrow> False | Some n \<Rightarrow> int n > maxLength))
                   fieldKey
                   (f_name field @ '' must be at most '' @ show_int maxLength @ '' characters'')])"

definition checkMinLength :: "FormField \<Rightarrow> string \<Rightarrow> jsval \<Rightarrow> FormErrors \<Rightarrow> js_error + FormErrors" where
  "checkMinLength field fieldKey v =
     (case f_valueMinLength field of
        None \<Rightarrow> Inr
      | Some valueMinLength \<Rightarrow>
          whenBlock (js_truthy v \<and> valueMinLength \<noteq> [])
            [case parseInt valueMinLength of
               None \<Rightarrow> Inr
             | Some minLength \<Rightarrow>
                 assignWhen (Inr (case js_length v of None \<Rightarrow> False | Some n \<Rightarrow> int n < minLength))
                   fieldKey
                   (f_name field @ '' must be at least '' @ show_int minLength @ '' characters'')])"

text \<open>Lines 155-159.\<close>

definition checkNumber :: "FormField \<Rightarrow> string \<Rightarrow> jsval \<Rightarrow> FormErrors \<Rightarrow> js_error + FormErrors" where
  "checkNumber field fieldKey v =
     whenBlock (f_inputType field = ''NUMBER'' \<and> js_truthy v)
       [assignWhen (Inr (numberIsNaN v)) fieldKey (f_name field @ '' must be a valid number'')]"

text \<open>Lines 162-170. \<open>date > new Date()\<close> is false for an invalid date; the clock is only
  read when \<open>field.isFutureDate === false\<close>.\<close>

definition checkDate :: "js_runtime \<Rightarrow> FormField \<Rightarrow> string \<Rightarrow> jsval \<Rightarrow> FormErrors \<Rightarrow> js_error + FormErrors" where
  "checkDate rt field fieldKey v =
     whenBlock (f_inputType field = ''DATE'' \<and> js_truthy v)
       [assignWhen (Inr (rt_dateValue rt v = None)) fieldKey (f_name field @ '' must be a valid date''),
        assignWhen (Inr (\<not> f_isFutureDate field \<and>
                         (case rt_dateValue rt v of None \<Rightarrow> False | Some t \<Rightarrow> t > rt_now rt)))
          fieldKey (f_name field @ '' cannot be a future date'')]"

text \<open>Lines 173-187. \<open>subSection.minImageCapture || 0\<close> is the number itself.\<close>

definition checkImage :: "SubSection \<Rightarrow> FormField \<Rightarrow> string \<Rightarrow> jsval \<Rightarrow> FormErrors \<Rightarrow> js_error + FormErrors" where
  "checkImage subSection field fieldKey v =
     whenBlock (f_fieldType field = ''IMAGE'' \<and> f_mandatory field)
       (let imageValue = listCoerce v;
            minImages = ss_minImageCapture subSection;
            maxImages = ss_maxImageCapture subSection
        in [assignWhen (Inr (length imageValue = 0)) fieldKey
              (f_name field @ '' is required. Please upload at least one image.''),
            assignWhen (Inr (minImages > 0 \<and> int (length imageValue) < minImages)) fieldKey
              (f_name field @ '' requires at least '' @ show_int minImages @ '' image(s).''),
            assignWhen (Inr (maxImages > 0 \<and> int (length imageValue) > maxImages)) fieldKey
              (f_name field @ '' allows maximum '' @ show_int maxImages @ '' image(s).'')])"

text \<open>Lines 190-195.\<close>

definition checkVideo :: "FormField \<Rightarrow> string \<Rightarrow> jsval \<Rightarrow> FormErrors \<Rightarrow> js_error + FormErrors" where
  "checkVideo field fieldKey v =
     whenBlock (f_fieldType field = ''VIDEO'' \<and> f_mandatory field)
       [assignWhen (Inr (length (listCoerce v) = 0)) fieldKey
          (f_name field @ '' is required. Please upload at least one video.'')]"

text \<open>Lines 198-203. The outer condition calls \<open>value.includes\<close>; \<open>test\<close> converts its
  argument to a string.\<close>

definition checkEmail :: "FormField \<Rightarrow> string \<Rightarrow> jsval \<Rightarrow> FormErrors \<Rightarrow> js_error + FormErrors" where
  "checkEmail field fieldKey v =
     assignWhen (if f_inputType field = ''TEXT'' \<and> js_truthy v
                 then (case includesAt v of
                         Inl x \<Rightarrow> Inl x
                       | Inr b \<Rightarrow> Inr (b \<and> \<not> emailRegexTest (js_toString v)))
                 else Inr False)
       fieldKey (f_name field @ '' must be a valid email address'')"

text \<open>Lines 206-211.\<close>

definition checkPhone :: "FormField \<Rightarrow> string \<Rightarrow> jsval \<Rightarrow> FormErrors \<Rightarrow> js_error + FormErrors" where
  "checkPhone field fieldKey v =
     assignWhen (if f_inputType field = ''NUMBER'' \<and> js_truthy v
                    \<and> (js_includes (toLowerCase (f_name field)) ''phone''
                        \<or> js_includes (toLowerCase (f_name field)) ''mobile'')
                 then (case stripNonDigits v of
                         Inl x \<Rightarrow> Inl x
                       | Inr digits \<Rightarrow> Inr (\<not> phoneRegexTest digits))
                 else Inr False)
       fieldKey (f_name field @ '' must be a valid 10-digit phone number'')"

text \<open>The callback of the innermost \<open>forEach\<close> (lines 128-212).\<close>

definition validateField :: "js_runtime \<Rightarrow> FormValues \<Rightarrow> Section \<Rightarrow> SubSection \<Rightarrow> FormField \<Rightarrow>
    FormErrors \<Rightarrow> js_error + FormErrors" where
  "validateField rt vals section subSection field newErrors =
     (if f_isHidden field then Inr newErrors
      else (let fieldKey = getFieldKey (s_name section) (ss_name subSection) field;
                v = lookupOrEmpty vals fieldKey
            in runChecks
                 [checkMandatory field fieldKey v,
                  checkMaxLength field fieldKey v,
                  checkMinLength field fieldKey v,
                  checkNumber field fieldKey v,
                  checkDate rt field fieldKey v,
                  checkImage subSection field fieldKey v,
                  checkVideo field fieldKey v,
                  checkEmail field fieldKey v,
                  checkPhone field fieldKey v]
                 newErrors))"

text \<open>\<open>forEach\<close> with a callback that may throw.\<close>

fun forEachE :: "('a \<Rightarrow> 's \<Rightarrow> js_error + 's) \<Rightarrow> 'a list \<Rightarrow> 's \<Rightarrow> js_error + 's" where
  "forEachE f [] s = Inr s"
| "forEachE f (x # xs) s = (case f x s of Inl e \<Rightarrow> Inl e | Inr s' \<Rightarrow> forEachE f xs s')"

definition validateSubSection :: "js_runtime \<Rightarrow> FormValues \<Rightarrow> Section \<Rightarrow> SubSection \<Rightarrow>
    FormErrors \<Rightarrow> js_error + FormErrors" where
  "validateSubSection rt vals section subSection newErrors =
     forEachE (validateField rt vals section subSection) (ss_fields subSection) newErrors"

definition validateSection :: "js_runtime \<Rightarrow> FormValues \<Rightarrow> string set \<Rightarrow> Section \<Rightarrow>
    FormErrors \<Rightarrow> js_error + FormErrors" where
  "validateSection rt vals visible section newErrors =
     (if s_name section \<notin> visible then Inr newErrors
      else forEachE (validateSubSection rt vals section) (s_subSections section) newErrors)"

record validation =
  isValid :: bool
  v_errors :: FormErrors

text \<open>
  \<open>validateForm\<close> reads the state cells, and on a normal return has called
  \<open>setErrors(newErrors)\<close>. A throw leaves the state as it was.
\<close>

definition validateForm :: "js_runtime \<Rightarrow> FormData option \<Rightarrow> form_state \<Rightarrow>
    js_error + (validation \<times> form_state)" where
  "validateForm rt formData st = (case formData of
       None \<Rightarrow> Inr (\<lparr> isValid = False, v_errors = [] \<rparr>, st)
     | Some fd \<Rightarrow>
        (case forEachE (validateSection rt (formValues st) (visibleSections st))
                (tw_sections (fd_templateWrap fd)) [] of
           Inl x \<Rightarrow> Inl x
         | Inr newErrors \<Rightarrow>
             Inr (\<lparr> isValid = (length (map fst newErrors) = 0), v_errors = newErrors \<rparr>,
                  st \<lparr> errors := newErrors \<rparr>)))"

subsection \<open>handleSubmit\<close>

text \<open>
  What a submit does towards the outside: it calls \<open>onSubmit\<close> with the value store, or it
  schedules the scroll to the element of \<open>Object.keys(validation.errors)[0]\<close>, when that
  key is truthy.
\<close>

datatype submit_effect = OnSubmit FormValues | ScrollTo "string option"

definition firstErrorKey :: "FormErrors \<Rightarrow> string option" where
  "firstErrorKey errs = (case map fst errs of [] \<Rightarrow> None | k # _ \<Rightarrow> if k \<noteq> [] then Some k else None)"

definition handleSubmit :: "js_runtime \<Rightarrow> FormData option \<Rightarrow> form_state \<Rightarrow>
    js_error + (submit_effect \<times> form_state)" where
  "handleSubmit rt formData st = (case validateForm rt formData st of
       Inl x \<Rightarrow> Inl x
     | Inr (validation, st') \<Rightarrow>
         if isValid validation then Inr (OnSubmit (formValues st), st')
         else Inr (ScrollTo (firstErrorKey (v_errors validation)), st'))"

text \<open>The step of the validation walk on a triple, and whether a field of a visible
  section fails: its checks, started on the empty map, do not return the empty map.\<close>

definition validateTriple :: "js_runtime \<Rightarrow> FormValues \<Rightarrow> Section \<times> SubSection \<times> FormField \<Rightarrow>
    FormErrors \<Rightarrow> js_error + FormErrors" where
  "validateTriple rt vals t = (case t of (section, subSection, field) \<Rightarrow>
     validateField rt vals section subSection field)"

definition fieldFails :: "js_runtime \<Rightarrow> FormValues \<Rightarrow> string set \<Rightarrow> Section \<times> SubSection \<times> FormField \<Rightarrow> bool" where
  "fieldFails rt vals visible t = (s_name (fst t) \<in> visible \<and> validateTriple rt vals t [] \<noteq> Inr [])"

subsection \<open>Notions used in the statements\<close>

text \<open>
  What one field's checks do to the error map, as a value: nothing, a throw, or the
  assignment of a message to the field's key.
\<close>

datatype outcome = Skip | Throw js_error | Assign string

definition applyOutcome :: "string \<Rightarrow> outcome \<Rightarrow> FormErrors \<Rightarrow> js_error + FormErrors" where
  "applyOutcome k oc newErrors = (case oc of
       Skip \<Rightarrow> Inr newErrors
     | Throw x \<Rightarrow> Inl x
     | Assign m \<Rightarrow> Inr (AList.update k m newErrors))"

definition stepIn :: "string set \<Rightarrow> string \<Rightarrow> (FormErrors \<Rightarrow> js_error + FormErrors) \<Rightarrow> bool" where
  "stepIn M k c = (\<exists>oc. c = applyOutcome k oc \<and> (\<forall>m. oc = Assign m \<longrightarrow> m \<in> M))"

text \<open>The two count messages of the image block.\<close>

definition minCountMessage :: "SubSection \<Rightarrow> FormField \<Rightarrow> string" where
  "minCountMessage subSection field =
     f_name field @ '' requires at least '' @ show_int (ss_minImageCapture subSection) @ '' image(s).''"

definition maxCountMessage :: "SubSection \<Rightarrow> FormField \<Rightarrow> string" where
  "maxCountMessage subSection field =
     f_name field @ '' allows maximum '' @ show_int (ss_maxImageCapture subSection) @ '' image(s).''"

text \<open>
  The field's future-date comparison is evaluated, and with it the clock is read: the
  section is visible, the field is shown, of date subtype, forbids future dates and
  holds a truthy value.
\<close>

definition readsClock :: "FormValues \<Rightarrow> string set \<Rightarrow> Section \<times> SubSection \<times> FormField \<Rightarrow> bool" where
  "readsClock vals visible t = (case t of (section, subSection, field) \<Rightarrow>
     s_name section \<in> visible \<and> \<not> f_isHidden field \<and> f_inputType field = ''DATE''
     \<and> \<not> f_isFutureDate field
     \<and> js_truthy (lookupOrEmpty vals (getFieldKey (s_name section) (ss_name subSection) field)))"

text \<open>
  The walk order of the specification's tree walker: sections and subsections in list
  order, the fields of a subsection sorted by ascending order index, ties in list order
  (the rendering in FormSection.tsx sorts its fields by \<open>(a.order || 0) - (b.order || 0)\<close>).
\<close>

definition orderOrZero :: "FormField \<Rightarrow> int" where
  "orderOrZero field = (case f_order field of None \<Rightarrow> 0 | Some n \<Rightarrow> n)"

definition specWalkFields :: "FormData \<Rightarrow> (Section \<times> SubSection \<times> FormField) list" where
  "specWalkFields fd =
     concat (map (\<lambda>section.
       concat (map (\<lambda>subSection.
         map (\<lambda>field. (section, subSection, field)) (sort_key orderOrZero (ss_fields subSection)))
         (s_subSections section)))
       (tw_sections (fd_templateWrap fd)))"

text \<open>The messages of the checks other than the image block's count statements.\<close>

definition plainMessages :: "FormField \<Rightarrow> string set" where
  "plainMessages field = {m. \<exists>suffix. m = f_name field @ suffix \<and> suffix \<noteq> []
      \<and> take 9 suffix \<noteq> '' requires'' \<and> take 9 suffix \<noteq> '' allows m''}"

definition visibleWalk :: "string set \<Rightarrow> FormData \<Rightarrow> (Section \<times> SubSection \<times> FormField) list" where
  "visibleWalk visible fd = filter (\<lambda>t. s_name (fst t) \<in> visible) (walkFields fd)"

text \<open>
  The email and the phone check, the checks behind the image block that can assign,
  assign nothing for the value the field holds.
\<close>

definition laterChecksSilent :: "FormValues \<Rightarrow> Section \<times> SubSection \<times> FormField \<Rightarrow> bool" where
  "laterChecksSilent vals t = (case t of (section, subSection, field) \<Rightarrow>
     (let fieldKey = getFieldKey (s_name section) (ss_name subSection) field;
          v = lookupOrEmpty vals fieldKey
      in checkEmail field fieldKey v [] = Inr [] \<and> checkPhone field fieldKey v [] = Inr []))"

text \<open>No other field of the walk has the key of this one.\<close>

definition keyUnique :: "FormData \<Rightarrow> Section \<times> SubSection \<times> FormField \<Rightarrow> bool" where
  "keyUnique fd t = list_all (\<lambda>u. keyOf u = keyOf t \<longrightarrow> u = t) (walkFields fd)"

subsection \<open>Example schemas\<close>

definition exField :: FormField where
  "exField = \<lparr> f_value = [], f_valueMinLength = None, f_valueLength = None,
     f_sfField = ''Name__c'', f_order = Some 1, f_name = ''Name'', f_mandatory = False,
     f_isHidden = False, f_isFutureDate = True, f_inputType = ''TEXT'', f_fieldType = ''INPUT'' \<rparr>"

definition mkSubSection :: "string \<Rightarrow> FormField list \<Rightarrow> SubSection" where
  "mkSubSection n fs = \<lparr> ss_name = n, ss_minImageCapture = 0, ss_maxImageCapture = 0,
     ss_isPrePopulateData = False, ss_fields = fs \<rparr>"

definition mkSection :: "string \<Rightarrow> SubSection list \<Rightarrow> Section" where
  "mkSection n sss = \<lparr> s_subSections = sss, s_name = n, s_isPrePopulateData = False \<rparr>"

definition mkFormData :: "Section list \<Rightarrow> DependentSectionDetail list \<Rightarrow> FormData" where
  "mkFormData ss rules = \<lparr> fd_templateWrap = \<lparr> tw_sections = ss, tw_dependentSectionsDetails = rules \<rparr> \<rparr>"

text \<open>One subsection listing the same field twice.\<close>

definition dupSub :: SubSection where
  "dupSub = mkSubSection ''S'' [exField, exField \<lparr> f_value := ''x'' \<rparr>]"

definition dupSec :: Section where
  "dupSec = mkSection ''A'' [dupSub]"

definition dupSchema :: FormData where
  "dupSchema = mkFormData [dupSec] []"

text \<open>One subsection with two fields that differ in their reference id.\<close>

definition twoFieldSub :: SubSection where
  "twoFieldSub = mkSubSection ''S'' [exField, exField \<lparr> f_sfField := ''Other__c'' \<rparr>]"

definition twoFieldSec :: Section where
  "twoFieldSec = mkSection ''A'' [twoFieldSub]"

definition twoFieldSchema :: FormData where
  "twoFieldSchema = mkFormData [twoFieldSec] []"

text \<open>The duplicated field next to a field with another reference id.\<close>

definition mixedSub :: SubSection where
  "mixedSub = mkSubSection ''S''
     [exField, exField \<lparr> f_value := ''x'' \<rparr>, exField \<lparr> f_sfField := ''Other__c'' \<rparr>]"

definition mixedSec :: Section where
  "mixedSec = mkSection ''A'' [mixedSub]"

definition mixedSchema :: FormData where
  "mixedSchema = mkFormData [mixedSec] []"

text \<open>Two sections whose names differ only in where an underscore sits.\<close>

definition underscoreSchema :: FormData where
  "underscoreSchema = mkFormData
     [mkSection ''a_'' [mkSubSection ''b'' [exField]],
      mkSection ''a'' [mkSubSection ''_b'' [exField]]] []"

text \<open>Section B depends on the answer to a field of section A.\<close>

definition loanField :: FormField where
  "loanField = exField \<lparr> f_name := ''Has Loan'', f_sfField := ''HasLoan'' \<rparr>"

definition amountField :: FormField where
  "amountField = exField \<lparr> f_name := ''Amount'', f_sfField := ''Amount'', f_value := ''1000'' \<rparr>"

definition ruleYes :: DependentSectionDetail where
  "ruleYes = \<lparr> d_value = ''Yes'', d_sectionName = ''A'', d_fieldName = ''HasLoan'',
     d_dependentSectionValue = ''B'' \<rparr>"

definition ruleNo :: DependentSectionDetail where
  "ruleNo = ruleYes \<lparr> d_value := ''No'' \<rparr>"

definition secA :: Section where
  "secA = mkSection ''A'' [mkSubSection ''S'' [loanField]]"

definition subT :: SubSection where
  "subT = mkSubSection ''T'' [amountField]"

definition secB :: Section where
  "secB = mkSection ''B'' [subT]"

definition depSchema :: FormData where
  "depSchema = mkFormData [secA, secB] [ruleYes]"

text \<open>The same form with a second rule on the same field and section, for the other answer.\<close>

definition conflictSchema :: FormData where
  "conflictSchema = mkFormData [secA, secB] [ruleYes, ruleNo]"

text \<open>A rule that names its field by a reference id containing the delimiter.\<close>

definition ruleRef :: DependentSectionDetail where
  "ruleRef = \<lparr> d_value = ''Yes'', d_sectionName = ''A'', d_fieldName = ''Name__c'',
     d_dependentSectionValue = ''B'' \<rparr>"

definition refSchema :: FormData where
  "refSchema = mkFormData [mkSection ''A'' [mkSubSection ''S'' [exField]], secB] [ruleRef]"

definition loanKey :: string where
  "loanKey = ''A__S__Has Loan__HasLoan''"

definition amountKey :: string where
  "amountKey = ''B__T__Amount__Amount''"

text \<open>
  A reference runtime for the examples. \<open>new Date(s)\<close> is modelled on the date-only form
  \<open>YYYY-MM-DD\<close> (UTC midnight of that day), which is what a date input yields; any other
  string is taken as an invalid date, so date-time strings and the dates that the real
  \<open>Date\<close> accepts by its own leniency are outside this runtime. A boolean converts to the
  number 0 or 1. The general statements hold for every runtime; the examples call this
  one at \<open>2030-01-01\<close> only.
\<close>

definition decimalValue :: "string \<Rightarrow> int" where
  "decimalValue ds = int (digitsValue 10 ds)"

definition isLeapYear :: "int \<Rightarrow> bool" where
  "isLeapYear y = (y mod 4 = 0 \<and> (y mod 100 \<noteq> 0 \<or> y mod 400 = 0))"

definition daysInMonth :: "int \<Rightarrow> int \<Rightarrow> int" where
  "daysInMonth y m = (if m = 2 then (if isLeapYear y then 29 else 28)
     else if m = 4 \<or> m = 6 \<or> m = 9 \<or> m = 11 then 30 else 31)"

text \<open>Days from 1970-01-01 to the given civil date.\<close>

definition daysFromCivil :: "int \<Rightarrow> int \<Rightarrow> int \<Rightarrow> int" where
  "daysFromCivil y m d =
     (let y' = (if m \<le> 2 then y - 1 else y);
          era = y' div 400;
          yoe = y' - era * 400;
          doy = (153 * (if m > 2 then m - 3 else m + 9) + 2) div 5 + d - 1;
          doe = yoe * 365 + yoe div 4 - yoe div 100 + doy
      in era * 146097 + doe - 719468)"

definition parseIsoDate :: "string \<Rightarrow> int option" where
  "parseIsoDate s =
     (if length s = 10 \<and> s ! 4 = CHR ''-'' \<and> s ! 7 = CHR ''-''
         \<and> list_all isDigit (take 4 s @ take 2 (drop 5 s) @ drop 8 s)
      then (let y = decimalValue (take 4 s); m = decimalValue (take 2 (drop 5 s));
                d = decimalValue (drop 8 s)
            in if 1 \<le> m \<and> m \<le> 12 \<and> 1 \<le> d \<and> d \<le> daysInMonth y m
               then Some (86400000 * daysFromCivil y m d) else None)
      else None)"

definition isoDateValue :: "jsval \<Rightarrow> int option" where
  "isoDateValue v = (case v of JBool b \<Rightarrow> Some (if b then 1 else 0) | _ \<Rightarrow> parseIsoDate (js_toString v))"

definition isoRuntime :: "int \<Rightarrow> js_runtime" where
  "isoRuntime now = \<lparr> rt_dateValue = isoDateValue, rt_now = now \<rparr>"

text \<open>A mandatory image field in a subsection asking for exactly two images.\<close>

definition photoField :: FormField where
  "photoField = exField \<lparr> f_name := ''Photo'', f_sfField := ''Photo'', f_mandatory := True,
     f_inputType := ''FILE'', f_fieldType := ''IMAGE'' \<rparr>"

definition photoSub :: SubSection where
  "photoSub = (mkSubSection ''P'' [photoField]) \<lparr> ss_minImageCapture := 2, ss_maxImageCapture := 2 \<rparr>"

definition photoSec :: Section where
  "photoSec = mkSection ''A'' [photoSub]"

definition photoSchema :: FormData where
  "photoSchema = mkFormData [photoSec] []"

definition photoKey :: string where
  "photoKey = ''A__P__Photo__Photo''"

text \<open>The same form with the image field optional.\<close>

definition optPhotoField :: FormField where
  "optPhotoField = photoField \<lparr> f_mandatory := False \<rparr>"

definition optPhotoSub :: SubSection where
  "optPhotoSub = photoSub \<lparr> ss_fields := [optPhotoField] \<rparr>"

definition optPhotoSec :: Section where
  "optPhotoSec = mkSection ''A'' [optPhotoSub]"

definition optPhotoSchema :: FormData where
  "optPhotoSchema = mkFormData [optPhotoSec] []"

text \<open>The mandatory image field with the plain text input subtype.\<close>

definition mailPhotoField :: FormField where
  "mailPhotoField = photoField \<lparr> f_inputType := ''TEXT'' \<rparr>"

definition mailPhotoSub :: SubSection where
  "mailPhotoSub = photoSub \<lparr> ss_fields := [mailPhotoField] \<rparr>"

definition mailPhotoSec :: Section where
  "mailPhotoSec = mkSection ''A'' [mailPhotoSub]"

definition mailPhotoSchema :: FormData where
  "mailPhotoSchema = mkFormData [mailPhotoSec] []"

text \<open>The mandatory image field followed by a text field of the same name and reference
  id, limited to no characters.\<close>

definition sharedPhotoSub :: SubSection where
  "sharedPhotoSub = photoSub \<lparr> ss_fields :=
     [photoField, photoField \<lparr> f_fieldType := ''INPUT'', f_valueLength := Some ''0'' \<rparr>] \<rparr>"

definition sharedPhotoSec :: Section where
  "sharedPhotoSec = mkSection ''A'' [sharedPhotoSub]"

definition sharedPhotoSchema :: FormData where
  "sharedPhotoSchema = mkFormData [sharedPhotoSec] []"

text \<open>A date field that must not lie in the future.\<close>

definition birthField :: FormField where
  "birthField = exField \<lparr> f_name := ''Birth'', f_sfField := ''Birth'', f_isFutureDate := False,
     f_inputType := ''DATE'', f_fieldType := ''DATE_PICKER'' \<rparr>"

definition birthSub :: SubSection where
  "birthSub = mkSubSection ''D'' [birthField]"

definition birthSec :: Section where
  "birthSec = mkSection ''A'' [birthSub]"

definition birthSchema :: FormData where
  "birthSchema = mkFormData [birthSec] []"

definition birthKey :: string where
  "birthKey = ''A__D__Birth__Birth''"

text \<open>Two mandatory fields listed against their order index.\<close>

definition lateField :: FormField where
  "lateField = exField \<lparr> f_name := ''Second'', f_sfField := ''Second'', f_order := Some 2, f_mandatory := True \<rparr>"

definition earlyField :: FormField where
  "earlyField = exField \<lparr> f_name := ''First'', f_sfField := ''First'', f_order := Some 1, f_mandatory := True \<rparr>"

definition orderSub :: SubSection where
  "orderSub = mkSubSection ''S'' [lateField, earlyField]"

definition orderSec :: Section where
  "orderSec = mkSection ''A'' [orderSub]"

definition orderSchema :: FormData where
  "orderSchema = mkFormData [orderSec] []"

text \<open>States reached by initialising and editing the example forms.\<close>

definition orderState :: form_state where
  "orderState = initialize (Some orderSchema) initialState"

definition depState :: form_state where
  "depState = initialize (Some depSchema) initialState"

definition birthState :: form_state where
  "birthState = handleFieldChange (Some birthSchema) birthKey (JStr ''2030-01-01'')
     (initialize (Some birthSchema) initialState)"

definition photoState :: form_state where
  "photoState = handleFieldChange (Some photoSchema) photoKey (JStr ''img.png'')
     (initialize (Some photoSchema) initialState)"

definition photoListState :: form_state where
  "photoListState = handleFieldChange (Some photoSchema) photoKey (JArr [JFile 1, JFile 2])
     (initialize (Some photoSchema) initialState)"

definition mailPhotoState :: form_state where
  "mailPhotoState = handleFieldChange (Some mailPhotoSchema) photoKey (JStr ''a@'')
     (initialize (Some mailPhotoSchema) initialState)"

definition sharedPhotoState :: form_state where
  "sharedPhotoState = handleFieldChange (Some sharedPhotoSchema) photoKey (JStr ''x'')
     (initialize (Some sharedPhotoSchema) initialState)"

definition optPhotoState :: form_state where
  "optPhotoState = initialize (Some optPhotoSchema) initialState"

section \<open>Properties\<close>

lemmas schema_defs = mkFormData_def mkSection_def mkSubSection_def exField_def
  dupSub_def dupSec_def dupSchema_def twoFieldSub_def twoFieldSec_def twoFieldSchema_def
  underscoreSchema_def loanField_def amountField_def ruleYes_def ruleNo_def secA_def subT_def
  secB_def depSchema_def conflictSchema_def loanKey_def amountKey_def ruleRef_def refSchema_def
  photoField_def photoSub_def photoSec_def photoSchema_def photoKey_def optPhotoField_def
  optPhotoSub_def optPhotoSec_def optPhotoSchema_def birthField_def birthSub_def birthSec_def
  birthSchema_def birthKey_def lateField_def earlyField_def orderSub_def orderSec_def
  orderSchema_def mailPhotoField_def mailPhotoSub_def mailPhotoSec_def mailPhotoSchema_def
  sharedPhotoSub_def sharedPhotoSec_def sharedPhotoSchema_def mixedSub_def mixedSec_def
  mixedSchema_def

lemmas walk_defs = walkFields_def sectionTriples_def subSectionTriples_def keyOf_def
  getFieldKey_def refOrOrder_def

subsection \<open>Splitting a composed key\<close>

lemma js_includes_Cons2:
  "js_includes (c # d # rest) ''__'' =
     ((c = CHR ''_'' \<and> d = CHR ''_'') \<or> js_includes (d # rest) ''__'')"
  by (auto simp: startsWith_def)

lemma splitDelim_no_delim:
  "\<not> js_includes s ''__'' \<Longrightarrow> splitDelim cur s = [cur @ s]"
proof (induction cur s rule: splitDelim.induct)
  case (3 cur c d rest)
  then show ?case by (auto simp: startsWith_def)
qed simp_all

lemma splitDelim_safe_prefix:
  "\<not> js_includes s ''__'' \<Longrightarrow> s = [] \<or> last s \<noteq> CHR ''_'' \<Longrightarrow>
   splitDelim cur (s @ ''__'' @ rest) = (cur @ s) # splitDelim [] rest"
proof (induction cur s rule: splitDelim.induct)
  case (1 cur)
  show ?case by simp
next
  case (2 cur c)
  then show ?case by simp
next
  case (3 cur c d rest')
  from "3.prems"(1) have nd: "\<not> (c = CHR ''_'' \<and> d = CHR ''_'')" and tl: "\<not> js_includes (d # rest') ''__''"
    by (auto simp: startsWith_def)
  from "3.prems"(2) have "d # rest' = [] \<or> last (d # rest') \<noteq> CHR ''_''" by simp
  with "3.IH"(2) nd tl have "splitDelim (cur @ [c]) ((d # rest') @ ''__'' @ rest) = ((cur @ [c]) @ d # rest') # splitDelim [] rest"
    by blast
  with nd show ?case by simp
qed

lemma js_split_getFieldKey:
  assumes "delimSafe sectionName" "delimSafe subSectionName" "delimSafe (f_name field)"
  shows "js_split (getFieldKey sectionName subSectionName field) =
           sectionName # subSectionName # f_name field # js_split (refOrOrder field)"
proof -
  let ?r = "refOrOrder field"
  have 1: "splitDelim [] (f_name field @ ''__'' @ ?r) = f_name field # splitDelim [] ?r"
    using assms(3) splitDelim_safe_prefix [of "f_name field" "[]" ?r]
    by (simp add: delimSafe_def containsDelim_def)
  have 2: "splitDelim [] (subSectionName @ ''__'' @ f_name field @ ''__'' @ ?r)
             = subSectionName # splitDelim [] (f_name field @ ''__'' @ ?r)"
    using assms(2) splitDelim_safe_prefix [of subSectionName "[]" "f_name field @ ''__'' @ ?r"]
    by (simp add: delimSafe_def containsDelim_def)
  have 3: "splitDelim [] (sectionName @ ''__'' @ subSectionName @ ''__'' @ f_name field @ ''__'' @ ?r)
             = sectionName # splitDelim [] (subSectionName @ ''__'' @ f_name field @ ''__'' @ ?r)"
    using assms(1) splitDelim_safe_prefix [of sectionName "[]" "subSectionName @ ''__'' @ f_name field @ ''__'' @ ?r"]
    by (simp add: delimSafe_def containsDelim_def)
  show ?thesis
    unfolding js_split_def getFieldKey_def using 1 2 3 by simp
qed

subsection \<open>Key uniqueness\<close>

lemma getFieldKey_parts_eq:
  assumes "namesDelimSafe a" "namesDelimSafe b" "keyOf a = keyOf b"
  shows "keyParts a = keyParts b"
proof -
  obtain s1 ss1 f1 where a: "a = (s1, ss1, f1)" by (cases a) auto
  obtain s2 ss2 f2 where b: "b = (s2, ss2, f2)" by (cases b) auto
  let ?k1 = "getFieldKey (s_name s1) (ss_name ss1) f1"
  let ?k2 = "getFieldKey (s_name s2) (ss_name ss2) f2"
  from assms(3) a b have keq: "?k1 = ?k2" by (simp add: keyOf_def)
  have sp1: "js_split ?k1 = s_name s1 # ss_name ss1 # f_name f1 # js_split (refOrOrder f1)"
    using assms(1) a by (intro js_split_getFieldKey) (simp_all add: namesDelimSafe_def)
  have sp2: "js_split ?k2 = s_name s2 # ss_name ss2 # f_name f2 # js_split (refOrOrder f2)"
    using assms(2) b by (intro js_split_getFieldKey) (simp_all add: namesDelimSafe_def)
  from keq sp1 sp2 have names: "s_name s1 = s_name s2" "ss_name ss1 = ss_name ss2" "f_name f1 = f_name f2"
    by simp_all
  with keq have "refOrOrder f1 = refOrOrder f2" by (simp add: getFieldKey_def)
  with names a b show ?thesis by (simp add: keyParts_def)
qed

text \<open>
  C5 (as amended). Any two fields of a schema whose section, subsection and field names
  neither contain the delimiter nor end in an underscore, and whose (section name,
  subsection name, field name, reference-id-or-order) quadruples differ, get different
  keys from \<open>getFieldKey\<close>; whatever the other fields of the schema are.
\<close>

theorem getFieldKey_distinct:
  assumes "i < length (walkFields fd)" "j < length (walkFields fd)"
    and "namesDelimSafe (walkFields fd ! i)" "namesDelimSafe (walkFields fd ! j)"
    and "keyParts (walkFields fd ! i) \<noteq> keyParts (walkFields fd ! j)"
  shows "allFieldKeys fd ! i \<noteq> allFieldKeys fd ! j"
proof
  assume "allFieldKeys fd ! i = allFieldKeys fd ! j"
  with assms(1,2) have "keyOf (walkFields fd ! i) = keyOf (walkFields fd ! j)"
    by (simp add: allFieldKeys_def)
  with assms(3,4) have "keyParts (walkFields fd ! i) = keyParts (walkFields fd ! j)"
    by (rule getFieldKey_parts_eq)
  with assms(5) show False by contradiction
qed

lemma mixed_walk:
  "walkFields mixedSchema =
     [(mixedSec, mixedSub, exField), (mixedSec, mixedSub, exField \<lparr> f_value := ''x'' \<rparr>),
      (mixedSec, mixedSub, exField \<lparr> f_sfField := ''Other__c'' \<rparr>)]"
  by (simp add: walkFields_def sectionTriples_def subSectionTriples_def mixedSchema_def mkFormData_def
      mixedSec_def mkSection_def mixedSub_def mkSubSection_def)

text \<open>The schema of the instance also holds a duplicated field.\<close>

theorem getFieldKey_distinct_witness:
  "(0::nat) < length (walkFields mixedSchema) \<and> (2::nat) < length (walkFields mixedSchema)
   \<and> namesDelimSafe (walkFields mixedSchema ! 0) \<and> namesDelimSafe (walkFields mixedSchema ! 2)
   \<and> keyParts (walkFields mixedSchema ! 0) \<noteq> keyParts (walkFields mixedSchema ! 2)
   \<and> allFieldKeys mixedSchema ! 0 \<noteq> allFieldKeys mixedSchema ! 2
   \<and> \<not> distinct (map keyParts (walkFields mixedSchema))"
proof -
  have h: "(0::nat) < length (walkFields mixedSchema)" "(2::nat) < length (walkFields mixedSchema)"
    by (simp_all add: mixed_walk)
  have s: "namesDelimSafe (walkFields mixedSchema ! 0)" "namesDelimSafe (walkFields mixedSchema ! 2)"
    by (simp_all add: mixed_walk namesDelimSafe_def delimSafe_def containsDelim_def startsWith_def
        mixedSec_def mixedSub_def mkSection_def mkSubSection_def exField_def)
  have q: "keyParts (walkFields mixedSchema ! 0) \<noteq> keyParts (walkFields mixedSchema ! 2)"
    by (simp add: mixed_walk keyParts_def refOrOrder_def exField_def)
  have d: "\<not> distinct (map keyParts (walkFields mixedSchema))"
    by (simp add: mixed_walk keyParts_def refOrOrder_def exField_def)
  from getFieldKey_distinct [OF h s q] h s q d show ?thesis by blast
qed

text \<open>When all quadruples of a safe schema differ, all its keys differ.\<close>

lemma allFieldKeys_distinct:
  assumes "\<forall>t \<in> set (walkFields fd). namesDelimSafe t"
    and "distinct (map keyParts (walkFields fd))"
  shows "distinct (allFieldKeys fd)"
proof -
  from assms(2) have d: "distinct (walkFields fd)" and inj: "inj_on keyParts (set (walkFields fd))"
    by (simp_all add: distinct_map)
  have "inj_on keyOf (set (walkFields fd))"
  proof (rule inj_onI)
    fix a b assume ab: "a \<in> set (walkFields fd)" "b \<in> set (walkFields fd)" "keyOf a = keyOf b"
    with assms(1) have "keyParts a = keyParts b" by (intro getFieldKey_parts_eq) auto
    with inj ab show "a = b" by (auto dest: inj_onD)
  qed
  with d show ?thesis by (simp add: allFieldKeys_def distinct_map)
qed

text \<open>
  C5 (as stated) fails: a subsection that lists two fields with the same name and
  reference id gives both the same key, and so do two fields whose section and
  subsection names only differ in the side of the delimiter an underscore is on.
\<close>

theorem getFieldKey_distinct_counterexample:
  "\<not> distinct (allFieldKeys dupSchema) \<and> \<not> distinct (allFieldKeys underscoreSchema)"
  by (simp add: schema_defs walk_defs allFieldKeys_def)

subsection \<open>Key decomposition\<close>

text \<open>
  C6 (as amended). When the section, subsection and field names neither contain the
  delimiter nor end in an underscore, and the field's reference id is non-empty and free
  of the delimiter, splitting the key recovers the section name as component 0 and the
  reference id as component 3, the two components \<open>checkDependentSections\<close> reads.
\<close>

theorem key_decomposition:
  assumes "delimSafe sectionName" "delimSafe subSectionName" "delimSafe (f_name field)"
    and "f_sfField field \<noteq> []" "\<not> containsDelim (f_sfField field)"
  shows "nth_opt (js_split (getFieldKey sectionName subSectionName field)) 0 = Some sectionName
       \<and> nth_opt (js_split (getFieldKey sectionName subSectionName field)) 3 = Some (f_sfField field)"
proof -
  have "js_split (refOrOrder field) = [f_sfField field]"
    using assms(4,5) splitDelim_no_delim [of "f_sfField field" "[]"]
    by (simp add: js_split_def refOrOrder_def containsDelim_def)
  with js_split_getFieldKey [OF assms(1-3)] show ?thesis
    by (simp add: nth_opt_def)
qed

theorem key_decomposition_witness:
  "delimSafe ''A'' \<and> delimSafe ''S'' \<and> delimSafe (f_name (exField \<lparr> f_sfField := ''Ref'' \<rparr>))
   \<and> f_sfField (exField \<lparr> f_sfField := ''Ref'' \<rparr>) \<noteq> []
   \<and> \<not> containsDelim (f_sfField (exField \<lparr> f_sfField := ''Ref'' \<rparr>))
   \<and> nth_opt (js_split (getFieldKey ''A'' ''S'' (exField \<lparr> f_sfField := ''Ref'' \<rparr>))) 0 = Some ''A''
   \<and> nth_opt (js_split (getFieldKey ''A'' ''S'' (exField \<lparr> f_sfField := ''Ref'' \<rparr>))) 3 = Some ''Ref''"
proof -
  let ?f = "exField \<lparr> f_sfField := ''Ref'' \<rparr>"
  have h: "delimSafe ''A''" "delimSafe ''S''" "delimSafe (f_name ?f)"
    "f_sfField ?f \<noteq> []" "\<not> containsDelim (f_sfField ?f)"
    by (simp_all add: delimSafe_def containsDelim_def startsWith_def exField_def)
  from h key_decomposition [OF h] show ?thesis by simp
qed

text \<open>
  C6 (as stated) fails, with every name free of the delimiter: a section name ending in
  an underscore loses it; a reference id that contains the delimiter is cut at it; an
  empty reference id is replaced by the order index.
\<close>

theorem key_decomposition_counterexample:
  "\<not> containsDelim ''a_'' \<and> \<not> containsDelim ''b'' \<and> \<not> containsDelim (f_name exField)
   \<and> nth_opt (js_split (getFieldKey ''a_'' ''b'' exField)) 0 \<noteq> Some ''a_''
   \<and> nth_opt (js_split (getFieldKey ''a'' ''b'' exField)) 3 \<noteq> Some (f_sfField exField)
   \<and> nth_opt (js_split (getFieldKey ''a'' ''b'' (exField \<lparr> f_sfField := [] \<rparr>))) 3
        \<noteq> Some (f_sfField (exField \<lparr> f_sfField := [] \<rparr>))"
  by (simp add: containsDelim_def startsWith_def exField_def js_split_def getFieldKey_def
      refOrOrder_def nth_opt_def show_int_def show_nat.simps digitChar_def)

subsection \<open>The initialising effect\<close>

lemma valueOrEmpty_id: "valueOrEmpty s = s"
  by (simp add: valueOrEmpty_def)


lemma initSubSection_step:
  "initSubSection s a (vals, ex) =
     (fold initTriple (subSectionTriples s a) vals,
      ex \<union> {s_name s @ ''-'' @ ss_name ss | ss. ss = a \<and> ss_isPrePopulateData ss})"
proof -
  have "fold (initField s a) (ss_fields a) vals = fold initTriple (subSectionTriples s a) vals"
    by (simp add: subSectionTriples_def fold_map comp_def initTriple_def [abs_def])
  then show ?thesis by (auto simp: initSubSection_def)
qed

lemma fold_initSubSection:
  "fold (initSubSection s) sss (vals, ex) =
     (fold initTriple (concat (map (subSectionTriples s) sss)) vals,
      ex \<union> {s_name s @ ''-'' @ ss_name ss | ss. ss \<in> set sss \<and> ss_isPrePopulateData ss})"
proof (induction sss arbitrary: vals ex)
  case Nil
  show ?case by simp
next
  case (Cons a sss)
  have "fold (initSubSection s) (a # sss) (vals, ex) = fold (initSubSection s) sss (initSubSection s a (vals, ex))"
    by simp
  also have "\<dots> = (fold initTriple (concat (map (subSectionTriples s) sss)) (fold initTriple (subSectionTriples s a) vals),
      (ex \<union> {s_name s @ ''-'' @ ss_name ss | ss. ss = a \<and> ss_isPrePopulateData ss})
         \<union> {s_name s @ ''-'' @ ss_name ss | ss. ss \<in> set sss \<and> ss_isPrePopulateData ss})"
    unfolding initSubSection_step by (rule Cons.IH)
  also have "\<dots> = (fold initTriple (concat (map (subSectionTriples s) (a # sss))) vals,
      ex \<union> {s_name s @ ''-'' @ ss_name ss | ss. ss \<in> set (a # sss) \<and> ss_isPrePopulateData ss})"
    by auto
  finally show ?case .
qed

lemma initSection_step:
  "initSection a (vals, vis, ex) =
     (fold initTriple (sectionTriples a) vals, insert (s_name a) vis,
      ex \<union> {s_name s | s. s = a \<and> s_isPrePopulateData s}
         \<union> {s_name a @ ''-'' @ ss_name ss | ss. ss \<in> set (s_subSections a) \<and> ss_isPrePopulateData ss})"
  by (auto simp: initSection_def fold_initSubSection sectionTriples_def)

lemma fold_initSection:
  "fold initSection secs (vals, vis, ex) =
     (fold initTriple (concat (map sectionTriples secs)) vals,
      vis \<union> s_name ` set secs,
      ex \<union> {s_name s | s. s \<in> set secs \<and> s_isPrePopulateData s}
         \<union> {s_name s @ ''-'' @ ss_name ss | s ss. s \<in> set secs \<and> ss \<in> set (s_subSections s) \<and> ss_isPrePopulateData ss})"
proof (induction secs arbitrary: vals vis ex)
  case Nil
  show ?case by simp
next
  case (Cons a secs)
  have "fold initSection (a # secs) (vals, vis, ex) = fold initSection secs (initSection a (vals, vis, ex))"
    by simp
  also have "\<dots> = (fold initTriple (concat (map sectionTriples secs)) (fold initTriple (sectionTriples a) vals),
      insert (s_name a) vis \<union> s_name ` set secs,
      (ex \<union> {s_name s | s. s = a \<and> s_isPrePopulateData s}
         \<union> {s_name a @ ''-'' @ ss_name ss | ss. ss \<in> set (s_subSections a) \<and> ss_isPrePopulateData ss})
      \<union> {s_name s | s. s \<in> set secs \<and> s_isPrePopulateData s}
         \<union> {s_name s @ ''-'' @ ss_name ss | s ss. s \<in> set secs \<and> ss \<in> set (s_subSections s) \<and> ss_isPrePopulateData ss})"
    unfolding initSection_step by (rule Cons.IH)
  also have "\<dots> = (fold initTriple (concat (map sectionTriples (a # secs))) vals,
      vis \<union> s_name ` set (a # secs),
      ex \<union> {s_name s | s. s \<in> set (a # secs) \<and> s_isPrePopulateData s}
         \<union> {s_name s @ ''-'' @ ss_name ss | s ss. s \<in> set (a # secs) \<and> ss \<in> set (s_subSections s) \<and> ss_isPrePopulateData ss})"
    by auto
  finally show ?case .
qed

lemma fold_initTriple_other:
  "k \<notin> keyOf ` set ts \<Longrightarrow> fold initTriple ts vals k = vals k"
  by (induction ts arbitrary: vals) (auto simp: initField_def keyOf_def initTriple_def)

lemma fold_initTriple_last:
  "keyOf t \<notin> keyOf ` set post \<Longrightarrow>
   fold initTriple (pre @ t # post) vals (keyOf t) = Some (JStr (f_value (snd (snd t))))"
  by (cases t) (simp add: fold_initTriple_other, simp add: initField_def keyOf_def valueOrEmpty_id initTriple_def)

text \<open>
  C9 (as amended). For a non-null schema the initialiser makes VisibleSections exactly the
  set of all section names, without looking at the dependency rules; makes
  ExpandedSections the names of the sections and the composite keys
  \<open>section-subsection\<close> of the subsections whose pre-populate flag is set; and maps the
  key of a field to that field's declared default (the empty string when there is none)
  whenever no later field of the walk has the same key.
\<close>

theorem initialize_result:
  "visibleSections (initialize (Some fd) st) = s_name ` set (tw_sections (fd_templateWrap fd))
   \<and> expandedSections (initialize (Some fd) st) =
       {s_name s | s. s \<in> set (tw_sections (fd_templateWrap fd)) \<and> s_isPrePopulateData s}
       \<union> {s_name s @ ''-'' @ ss_name ss | s ss. s \<in> set (tw_sections (fd_templateWrap fd))
              \<and> ss \<in> set (s_subSections s) \<and> ss_isPrePopulateData ss}
   \<and> (\<forall>pre t post. walkFields fd = pre @ t # post \<and> keyOf t \<notin> keyOf ` set post \<longrightarrow>
         formValues (initialize (Some fd) st) (keyOf t) = Some (JStr (f_value (snd (snd t)))))"
proof (intro conjI allI impI)
  fix pre t post
  assume h: "walkFields fd = pre @ t # post \<and> keyOf t \<notin> keyOf ` set post"
  have "formValues (initialize (Some fd) st) = fold initTriple (walkFields fd) Map.empty"
    by (simp add: initialize_def fold_initSection walkFields_def)
  moreover from h have "fold initTriple (pre @ t # post) Map.empty (keyOf t) = Some (JStr (f_value (snd (snd t))))"
    by (intro fold_initTriple_last) blast
  ultimately show "formValues (initialize (Some fd) st) (keyOf t) = Some (JStr (f_value (snd (snd t))))"
    using h by metis
qed (auto simp: initialize_def fold_initSection)

theorem initialize_result_witness:
  "walkFields twoFieldSchema
      = [] @ (twoFieldSec, twoFieldSub, exField) # [(twoFieldSec, twoFieldSub, exField \<lparr> f_sfField := ''Other__c'' \<rparr>)]
   \<and> keyOf (twoFieldSec, twoFieldSub, exField)
        \<notin> keyOf ` set [(twoFieldSec, twoFieldSub, exField \<lparr> f_sfField := ''Other__c'' \<rparr>)]
   \<and> formValues (initialize (Some twoFieldSchema) initialState) (keyOf (twoFieldSec, twoFieldSub, exField))
        = Some (JStr (f_value exField))
   \<and> visibleSections (initialize (Some twoFieldSchema) initialState) = {''A''}"
proof -
  let ?t = "(twoFieldSec, twoFieldSub, exField)"
  let ?post = "[(twoFieldSec, twoFieldSub, exField \<lparr> f_sfField := ''Other__c'' \<rparr>)]"
  have h: "walkFields twoFieldSchema = [] @ ?t # ?post \<and> keyOf ?t \<notin> keyOf ` set ?post"
    by (simp add: schema_defs walk_defs)
  have v: "s_name ` set (tw_sections (fd_templateWrap twoFieldSchema)) = {''A''}"
    by (simp add: schema_defs)
  note R = initialize_result [of twoFieldSchema initialState]
  from R [THEN conjunct2, THEN conjunct2, rule_format, of "[]" ?t ?post] h
  have "formValues (initialize (Some twoFieldSchema) initialState) (keyOf ?t) = Some (JStr (f_value exField))"
    by simp
  moreover from R [THEN conjunct1] v
  have "visibleSections (initialize (Some twoFieldSchema) initialState) = {''A''}"
    by simp
  ultimately show ?thesis using h by blast
qed

text \<open>
  C9 (as stated) fails where two fields share a key: the later field's default
  overwrites the earlier one's, so the first field's key is not mapped to its own default.
\<close>

theorem initialize_result_counterexample:
  "(dupSec, dupSub, exField) \<in> set (walkFields dupSchema)
   \<and> formValues (initialize (Some dupSchema) initialState) (keyOf (dupSec, dupSub, exField))
        \<noteq> Some (JStr (valueOrEmpty (f_value exField)))"
  by (simp add: schema_defs walk_defs initialize_def initSection_def initSubSection_def
      initField_def valueOrEmpty_def)

subsection \<open>Dependent sections\<close>

lemma fold_clearField:
  "fold (clearField s ss) fs vals k =
     (if \<exists>t \<in> set (map (\<lambda>f. (s, ss, f)) fs). keyOf t = k then Some (JStr []) else vals k)"
  by (induction fs arbitrary: vals) (auto simp: clearField_def keyOf_def)

lemma fold_clearSubSection:
  "fold (clearSubSection s) sss vals k =
     (if \<exists>t \<in> set (concat (map (subSectionTriples s) sss)). keyOf t = k then Some (JStr []) else vals k)"
proof (induction sss arbitrary: vals)
  case Nil
  show ?case by simp
next
  case (Cons a sss)
  have "fold (clearSubSection s) (a # sss) vals k = fold (clearSubSection s) sss (clearSubSection s a vals) k"
    by simp
  also have "\<dots> = (if \<exists>t \<in> set (concat (map (subSectionTriples s) sss)). keyOf t = k then Some (JStr [])
                     else clearSubSection s a vals k)"
    by (rule Cons.IH)
  also have "clearSubSection s a vals k =
      (if \<exists>t \<in> set (subSectionTriples s a). keyOf t = k then Some (JStr []) else vals k)"
    unfolding clearSubSection_def subSectionTriples_def by (rule fold_clearField)
  finally show ?case by auto
qed

lemma sectionTriples_fst: "t \<in> set (sectionTriples s) \<Longrightarrow> fst t = s"
  by (auto simp: sectionTriples_def subSectionTriples_def)

lemma fold_clearSection:
  "fold (clearSection dep) secs vals k =
     (if \<exists>t \<in> set (concat (map sectionTriples secs)). s_name (fst t) = dep \<and> keyOf t = k
      then Some (JStr []) else vals k)"
proof (induction secs arbitrary: vals)
  case Nil
  show ?case by simp
next
  case (Cons a secs)
  have "fold (clearSection dep) (a # secs) vals k = fold (clearSection dep) secs (clearSection dep a vals) k"
    by simp
  also have "\<dots> = (if \<exists>t \<in> set (concat (map sectionTriples secs)). s_name (fst t) = dep \<and> keyOf t = k
                     then Some (JStr []) else clearSection dep a vals k)"
    by (rule Cons.IH)
  also have "clearSection dep a vals k =
      (if \<exists>t \<in> set (sectionTriples a). s_name (fst t) = dep \<and> keyOf t = k then Some (JStr []) else vals k)"
    by (auto simp: clearSection_def fold_clearSubSection sectionTriples_def [symmetric] dest: sectionTriples_fst)
  finally show ?case by auto
qed

lemma applyRule_keeps_cleared:
  "formValues st k = Some (JStr []) \<Longrightarrow> formValues (applyRule fd sn fn v r st) k = Some (JStr [])"
  by (simp add: applyRule_def fold_clearSection)

lemma fold_applyRule_keeps_cleared:
  "formValues st k = Some (JStr []) \<Longrightarrow> formValues (fold (applyRule fd sn fn v) rs st) k = Some (JStr [])"
  by (induction rs arbitrary: st) (simp_all add: applyRule_keeps_cleared)

lemma fold_applyRule_keeps_hidden:
  assumes "dep \<notin> visibleSections st"
    and "\<forall>r \<in> set rs. Some (d_sectionName r) = sn \<and> Some (d_fieldName r) = fn
            \<and> d_dependentSectionValue r = dep \<longrightarrow> v \<noteq> JStr (d_value r)"
  shows "dep \<notin> visibleSections (fold (applyRule fd sn fn v) rs st)"
  using assms
proof (induction rs arbitrary: st)
  case Nil
  then show ?case by simp
next
  case (Cons r rs)
  from Cons.prems have "dep \<notin> visibleSections (applyRule fd sn fn v r st)"
    by (auto simp: applyRule_def)
  with Cons.IH Cons.prems(2) show ?case by simp
qed

text \<open>
  In terms of the test of line 84 on the split key: a rule passing it with a trigger other
  than the new value clears the dependent section's fields, and hides the section unless
  a later rule passing the test shows it again.
\<close>

lemma checkDependentSections_hides_split:
  assumes "tw_dependentSectionsDetails (fd_templateWrap fd) = pre @ rule # post"
    and "ruleMatches fieldKey rule"
    and "v \<noteq> JStr (d_value rule)"
  shows "(\<forall>t \<in> set (walkFields fd). s_name (fst t) = d_dependentSectionValue rule \<longrightarrow>
            formValues (checkDependentSections (Some fd) fieldKey v st) (keyOf t) = Some (JStr []))
       \<and> ((\<forall>r \<in> set post. ruleMatches fieldKey r
               \<and> d_dependentSectionValue r = d_dependentSectionValue rule \<longrightarrow> v \<noteq> JStr (d_value r))
           \<longrightarrow> d_dependentSectionValue rule \<notin> visibleSections (checkDependentSections (Some fd) fieldKey v st))"
proof -
  let ?sn = "nth_opt (js_split fieldKey) 0" and ?fn = "nth_opt (js_split fieldKey) 3"
  let ?dep = "d_dependentSectionValue rule"
  let ?st0 = "fold (applyRule fd ?sn ?fn v) pre st"
  let ?st1 = "applyRule fd ?sn ?fn v rule ?st0"
  have res: "checkDependentSections (Some fd) fieldKey v st = fold (applyRule fd ?sn ?fn v) post ?st1"
    by (simp add: checkDependentSections_def Let_def assms(1))
  from assms(2,3) have hidden: "?dep \<notin> visibleSections ?st1"
    by (simp add: applyRule_def ruleMatches_def)
  have cleared: "formValues ?st1 (keyOf t) = Some (JStr [])"
    if "t \<in> set (walkFields fd)" "s_name (fst t) = ?dep" for t
    using that assms(2,3) by (auto simp: applyRule_def ruleMatches_def fold_clearSection walkFields_def)
  show ?thesis
  proof (intro conjI ballI impI)
    fix t assume "t \<in> set (walkFields fd)" "s_name (fst t) = ?dep"
    then show "formValues (checkDependentSections (Some fd) fieldKey v st) (keyOf t) = Some (JStr [])"
      unfolding res by (intro fold_applyRule_keeps_cleared cleared)
  next
    assume "\<forall>r \<in> set post. ruleMatches fieldKey r \<and> d_dependentSectionValue r = ?dep \<longrightarrow> v \<noteq> JStr (d_value r)"
    then show "?dep \<notin> visibleSections (checkDependentSections (Some fd) fieldKey v st)"
      unfolding res by (intro fold_applyRule_keeps_hidden hidden) (simp add: ruleMatches_def)
  qed
qed

text \<open>
  For the key of a field with safe names and a non-empty, delimiter-free reference id,
  the test of line 84 holds of a rule exactly when the rule names the field's section
  and reference id.
\<close>

lemma ruleMatches_field:
  assumes "delimSafe sectionName" "delimSafe subSectionName" "delimSafe (f_name field)"
    and "f_sfField field \<noteq> []" "\<not> containsDelim (f_sfField field)"
  shows "ruleMatches (getFieldKey sectionName subSectionName field) rule
           = (d_sectionName rule = sectionName \<and> d_fieldName rule = f_sfField field)"
proof -
  have "js_split (refOrOrder field) = [f_sfField field]"
    using assms(4,5) splitDelim_no_delim [of "f_sfField field" "[]"]
    by (simp add: js_split_def refOrOrder_def containsDelim_def)
  with js_split_getFieldKey [OF assms(1-3)] show ?thesis
    by (simp add: ruleMatches_def nth_opt_def)
qed

text \<open>
  C1 (as amended). Let the changed field have section, subsection and field names that
  neither contain the delimiter nor end in an underscore, and a non-empty reference id
  free of the delimiter. When \<open>checkDependentSections\<close> runs on its key with a new value
  different from the trigger value of a rule naming the field's section and reference id,
  afterwards every field key of the rule's dependent section is mapped to the empty
  string; and the dependent section's name is absent from VisibleSections provided no
  rule later in the list names the same field and the same dependent section with a
  trigger value equal to the new value.
\<close>

theorem checkDependentSections_hides:
  assumes "tw_dependentSectionsDetails (fd_templateWrap fd) = pre @ rule # post"
    and "delimSafe sectionName" "delimSafe subSectionName" "delimSafe (f_name field)"
    and "f_sfField field \<noteq> []" "\<not> containsDelim (f_sfField field)"
    and "d_sectionName rule = sectionName" "d_fieldName rule = f_sfField field"
    and "v \<noteq> JStr (d_value rule)"
  shows "(\<forall>t \<in> set (walkFields fd). s_name (fst t) = d_dependentSectionValue rule \<longrightarrow>
            formValues (checkDependentSections (Some fd) (getFieldKey sectionName subSectionName field) v st)
              (keyOf t) = Some (JStr []))
       \<and> ((\<forall>r \<in> set post. d_sectionName r = sectionName \<and> d_fieldName r = f_sfField field
               \<and> d_dependentSectionValue r = d_dependentSectionValue rule \<longrightarrow> v \<noteq> JStr (d_value r))
           \<longrightarrow> d_dependentSectionValue rule \<notin> visibleSections
                 (checkDependentSections (Some fd) (getFieldKey sectionName subSectionName field) v st))"
proof -
  note m = ruleMatches_field [OF assms(2-6)]
  from assms(7,8) have "ruleMatches (getFieldKey sectionName subSectionName field) rule"
    by (simp add: m)
  from checkDependentSections_hides_split [OF assms(1) this assms(9), of st]
  show ?thesis by (simp add: m)
qed

lemma loanKey_eq: "getFieldKey ''A'' ''S'' loanField = loanKey"
  by (simp add: schema_defs walk_defs)

theorem checkDependentSections_hides_witness:
  "tw_dependentSectionsDetails (fd_templateWrap depSchema) = [] @ ruleYes # []
   \<and> delimSafe ''A'' \<and> delimSafe ''S'' \<and> delimSafe (f_name loanField)
   \<and> f_sfField loanField \<noteq> [] \<and> \<not> containsDelim (f_sfField loanField)
   \<and> d_sectionName ruleYes = ''A'' \<and> d_fieldName ruleYes = f_sfField loanField
   \<and> JStr ''No'' \<noteq> JStr (d_value ruleYes)
   \<and> (secB, subT, amountField) \<in> set (walkFields depSchema)
   \<and> s_name (fst (secB, subT, amountField)) = d_dependentSectionValue ruleYes
   \<and> formValues (checkDependentSections (Some depSchema) (getFieldKey ''A'' ''S'' loanField) (JStr ''No'')
         (initialize (Some depSchema) initialState)) amountKey = Some (JStr [])
   \<and> ''B'' \<notin> visibleSections (checkDependentSections (Some depSchema) (getFieldKey ''A'' ''S'' loanField)
         (JStr ''No'') (initialize (Some depSchema) initialState))"
proof -
  have h1: "tw_dependentSectionsDetails (fd_templateWrap depSchema) = [] @ ruleYes # []"
    by (simp add: schema_defs)
  have h2: "delimSafe ''A''" "delimSafe ''S''" "delimSafe (f_name loanField)"
    "f_sfField loanField \<noteq> []" "\<not> containsDelim (f_sfField loanField)"
    by (simp_all add: schema_defs delimSafe_def containsDelim_def startsWith_def)
  have h3: "d_sectionName ruleYes = ''A''" "d_fieldName ruleYes = f_sfField loanField"
    "JStr ''No'' \<noteq> JStr (d_value ruleYes)"
    by (simp_all add: schema_defs)
  have h4: "(secB, subT, amountField) \<in> set (walkFields depSchema)"
    by (simp add: schema_defs walk_defs)
  have h5: "s_name (fst (secB, subT, amountField)) = d_dependentSectionValue ruleYes"
    by (simp add: schema_defs)
  have k: "keyOf (secB, subT, amountField) = amountKey" "d_dependentSectionValue ruleYes = ''B''"
    by (simp_all add: schema_defs walk_defs)
  note T = checkDependentSections_hides [OF h1 h2 h3, of "initialize (Some depSchema) initialState"]
  from T [THEN conjunct1, rule_format, OF h4 h5] T [THEN conjunct2] h1 h2 h3 h4 h5 k
  show ?thesis by simp
qed

text \<open>
  C1 (as stated) fails twice. Rules are applied in list order, so a later rule on the same
  field and dependent section whose trigger equals the new value shows the section again.
  And a rule naming the field by a reference id that contains the delimiter never passes
  the test on the split key: the section stays visible and its values stay.
\<close>

theorem checkDependentSections_hides_counterexample:
  "ruleYes \<in> set (tw_dependentSectionsDetails (fd_templateWrap conflictSchema))
   \<and> d_sectionName ruleYes = ''A'' \<and> d_fieldName ruleYes = f_sfField loanField
   \<and> JStr ''No'' \<noteq> JStr (d_value ruleYes)
   \<and> d_dependentSectionValue ruleYes \<in> visibleSections
        (checkDependentSections (Some conflictSchema) (getFieldKey ''A'' ''S'' loanField) (JStr ''No'')
           (initialize (Some conflictSchema) initialState))
   \<and> ruleRef \<in> set (tw_dependentSectionsDetails (fd_templateWrap refSchema))
   \<and> d_sectionName ruleRef = ''A'' \<and> d_fieldName ruleRef = f_sfField exField
   \<and> JStr ''No'' \<noteq> JStr (d_value ruleRef)
   \<and> d_dependentSectionValue ruleRef \<in> visibleSections
        (checkDependentSections (Some refSchema) (getFieldKey ''A'' ''S'' exField) (JStr ''No'')
           (initialize (Some refSchema) initialState))
   \<and> formValues (checkDependentSections (Some refSchema) (getFieldKey ''A'' ''S'' exField) (JStr ''No'')
           (initialize (Some refSchema) initialState)) amountKey = Some (JStr ''1000'')"
proof -
  have a: "ruleYes \<in> set (tw_dependentSectionsDetails (fd_templateWrap conflictSchema))
   \<and> d_sectionName ruleYes = ''A'' \<and> d_fieldName ruleYes = f_sfField loanField
   \<and> JStr ''No'' \<noteq> JStr (d_value ruleYes)
   \<and> d_dependentSectionValue ruleYes \<in> visibleSections
        (checkDependentSections (Some conflictSchema) (getFieldKey ''A'' ''S'' loanField) (JStr ''No'')
           (initialize (Some conflictSchema) initialState))"
    unfolding loanKey_eq
    by (simp add: schema_defs js_split_def nth_opt_def checkDependentSections_def
      applyRule_def Let_def)
  have b: "ruleRef \<in> set (tw_dependentSectionsDetails (fd_templateWrap refSchema))
   \<and> d_sectionName ruleRef = ''A'' \<and> d_fieldName ruleRef = f_sfField exField
   \<and> JStr ''No'' \<noteq> JStr (d_value ruleRef)
   \<and> d_dependentSectionValue ruleRef \<in> visibleSections
        (checkDependentSections (Some refSchema) (getFieldKey ''A'' ''S'' exField) (JStr ''No'')
           (initialize (Some refSchema) initialState))
   \<and> formValues (checkDependentSections (Some refSchema) (getFieldKey ''A'' ''S'' exField) (JStr ''No'')
           (initialize (Some refSchema) initialState)) amountKey = Some (JStr ''1000'')"
    by (simp add: schema_defs walk_defs js_split_def nth_opt_def
        checkDependentSections_def applyRule_def Let_def initialize_def initSection_def
        initSubSection_def initField_def valueOrEmpty_def)
  from a b show ?thesis by blast
qed

subsection \<open>The frame of a field edit\<close>

lemma fold_applyRule_no_match:
  "\<forall>r \<in> set rs. \<not> (Some (d_sectionName r) = sn \<and> Some (d_fieldName r) = fn) \<Longrightarrow>
   fold (applyRule fd sn fn v) rs st = st"
  by (induction rs arbitrary: st) (auto simp: applyRule_def)

lemma delete_absent: "map_of al k = None \<Longrightarrow> AList.delete k al = al"
  by (induction al) (auto split: if_splits)

text \<open>
  C10. When no dependency rule matches the changed key, \<open>handleFieldChange\<close> overwrites
  that key's ValueStore entry with the new value and removes that key's entry from the
  ValidationErrors (whose messages are non-empty, as the validator's are); every other
  value, every other error entry and its position, VisibleSections and ExpandedSections
  stay as they were.
\<close>

theorem handleFieldChange_frame:
  assumes "\<forall>fd. formData = Some fd \<longrightarrow>
            (\<forall>rule \<in> set (tw_dependentSectionsDetails (fd_templateWrap fd)). \<not> ruleMatches fieldKey rule)"
    and "messagesNonEmpty (errors st)"
  shows "handleFieldChange formData fieldKey v st =
           st \<lparr> formValues := (formValues st)(fieldKey \<mapsto> v),
                errors := AList.delete fieldKey (errors st) \<rparr>"
proof -
  have del: "\<not> hasError (errors st) fieldKey \<Longrightarrow> AList.delete fieldKey (errors st) = errors st"
  proof -
    assume a: "\<not> hasError (errors st) fieldKey"
    have "map_of (errors st) fieldKey = None"
    proof (cases "map_of (errors st) fieldKey")
      case (Some m)
      then have "(fieldKey, m) \<in> set (errors st)" by (rule map_of_SomeD)
      with assms(2) have "m \<noteq> []" by (auto simp: messagesNonEmpty_def list_all_iff)
      with a Some show ?thesis by (simp add: hasError_def)
    qed simp
    then show ?thesis by (rule delete_absent)
  qed
  show ?thesis
  proof (cases formData)
    case None
    then show ?thesis using del by (auto simp: handleFieldChange_def Let_def)
  next
    case (Some fd)
    with assms(1) have nm: "\<forall>r \<in> set (tw_dependentSectionsDetails (fd_templateWrap fd)).
        \<not> (Some (d_sectionName r) = nth_opt (js_split fieldKey) 0 \<and> Some (d_fieldName r) = nth_opt (js_split fieldKey) 3)"
      by (simp add: ruleMatches_def)
    show ?thesis using Some del
      by (auto simp: handleFieldChange_def Let_def checkDependentSections_def fold_applyRule_no_match [OF nm])
  qed
qed

theorem handleFieldChange_frame_witness:
  "list_all (\<lambda>rule. \<not> ruleMatches amountKey rule) (tw_dependentSectionsDetails (fd_templateWrap depSchema))
   \<and> messagesNonEmpty [(amountKey, ''Amount is required'')]
   \<and> handleFieldChange (Some depSchema) amountKey (JStr ''5'')
        (initialState \<lparr> errors := [(amountKey, ''Amount is required'')] \<rparr>)
      = initialState \<lparr> formValues := [amountKey \<mapsto> JStr ''5''], errors := [] \<rparr>"
proof -
  let ?st = "initialState \<lparr> errors := [(amountKey, ''Amount is required'')] \<rparr>"
  have h1: "\<forall>fd. Some depSchema = Some fd \<longrightarrow>
      (\<forall>rule \<in> set (tw_dependentSectionsDetails (fd_templateWrap fd)). \<not> ruleMatches amountKey rule)"
    by (simp add: schema_defs ruleMatches_def js_split_def nth_opt_def)
  have h2: "messagesNonEmpty (errors ?st)"
    by (simp add: messagesNonEmpty_def)
  from handleFieldChange_frame [OF h1 h2, of "JStr ''5''"] h1 h2 show ?thesis
    by (simp add: initialState_def AList.delete_eq list_all_iff)
qed

subsection \<open>The checks of one field as one keyed step\<close>

lemma stepIn_skip: "stepIn M k Inr"
  unfolding stepIn_def by (rule exI [of _ Skip]) (simp add: applyOutcome_def fun_eq_iff)

lemma stepIn_assignWhen: "m \<in> M \<Longrightarrow> stepIn M k (assignWhen cond k m)"
proof (cases cond)
  case (Inl x)
  then show ?thesis unfolding stepIn_def
    by (intro exI [of _ "Throw x"]) (simp add: applyOutcome_def assignWhen_def fun_eq_iff)
next
  case (Inr b)
  assume m: "m \<in> M"
  show ?thesis
  proof (cases b)
    case True
    with Inr m show ?thesis unfolding stepIn_def
      by (intro exI [of _ "Assign m"]) (simp add: applyOutcome_def assignWhen_def fun_eq_iff)
  next
    case False
    with Inr show ?thesis unfolding stepIn_def
      by (intro exI [of _ Skip]) (simp add: applyOutcome_def assignWhen_def fun_eq_iff)
  qed
qed

lemma applyOutcome_then:
  "\<exists>oc. (\<lambda>e. case applyOutcome k a e of Inl x \<Rightarrow> Inl x | Inr e' \<Rightarrow> applyOutcome k b e') = applyOutcome k oc
        \<and> (oc = a \<or> oc = b)"
proof (cases a)
  case Skip
  then show ?thesis by (intro exI [of _ b]) (simp add: applyOutcome_def fun_eq_iff)
next
  case (Throw x)
  then show ?thesis by (intro exI [of _ a]) (simp add: applyOutcome_def fun_eq_iff)
next
  case (Assign m)
  show ?thesis
  proof (cases b)
    case Skip
    with Assign show ?thesis by (intro exI [of _ a]) (simp add: applyOutcome_def fun_eq_iff)
  next
    case (Throw x)
    with Assign show ?thesis by (intro exI [of _ b]) (simp add: applyOutcome_def fun_eq_iff)
  next
    case (Assign m2)
    with \<open>a = Assign m\<close> show ?thesis
      by (intro exI [of _ b]) (simp add: applyOutcome_def fun_eq_iff)
  qed
qed

lemma stepIn_runChecks: "\<forall>c \<in> set cs. stepIn M k c \<Longrightarrow> stepIn M k (runChecks cs)"
proof (induction cs)
  case Nil
  have "runChecks [] = Inr" by (simp add: fun_eq_iff)
  then show ?case by (simp add: stepIn_skip)
next
  case (Cons c cs)
  from Cons.prems obtain o1 where o1: "c = applyOutcome k o1" "\<forall>m. o1 = Assign m \<longrightarrow> m \<in> M"
    by (auto simp: stepIn_def)
  from Cons obtain o2 where o2: "runChecks cs = applyOutcome k o2" "\<forall>m. o2 = Assign m \<longrightarrow> m \<in> M"
    by (auto simp: stepIn_def)
  have eq: "runChecks (c # cs) = (\<lambda>e. case applyOutcome k o1 e of Inl x \<Rightarrow> Inl x | Inr e' \<Rightarrow> applyOutcome k o2 e')"
    by (simp add: fun_eq_iff o1(1) o2(1) [THEN fun_cong] split: sum.splits)
  from applyOutcome_then [where k = k and a = o1 and b = o2] obtain oc where
    oc: "(\<lambda>e. case applyOutcome k o1 e of Inl x \<Rightarrow> Inl x | Inr e' \<Rightarrow> applyOutcome k o2 e') = applyOutcome k oc"
      "oc = o1 \<or> oc = o2" by blast
  from eq oc(1) have "runChecks (c # cs) = applyOutcome k oc" by (rule trans)
  moreover from oc(2) o1(2) o2(2) have "\<forall>m. oc = Assign m \<longrightarrow> m \<in> M" by blast
  ultimately show ?case unfolding stepIn_def by blast
qed

lemma stepIn_whenBlock: "\<forall>c \<in> set body. stepIn M k c \<Longrightarrow> stepIn M k (whenBlock g body)"
proof (cases g)
  case True
  assume "\<forall>c \<in> set body. stepIn M k c"
  then have "stepIn M k (runChecks body)" by (rule stepIn_runChecks)
  moreover from True have "whenBlock g body = runChecks body" by (simp add: whenBlock_def fun_eq_iff)
  ultimately show ?thesis by simp
next
  case False
  then have "whenBlock g body = Inr" by (simp add: whenBlock_def fun_eq_iff)
  then show ?thesis by (simp add: stepIn_skip)
qed

lemma stepIn_mono: "stepIn M k c \<Longrightarrow> M \<subseteq> N \<Longrightarrow> stepIn N k c"
  unfolding stepIn_def by blast

lemma plain_intro: "suffix \<noteq> [] \<Longrightarrow> take 9 suffix \<noteq> '' requires'' \<Longrightarrow> take 9 suffix \<noteq> '' allows m''
   \<Longrightarrow> f_name field @ suffix \<in> plainMessages field"
  by (auto simp: plainMessages_def)

lemma checkMandatory_step: "stepIn (plainMessages field) k (checkMandatory field k v)"
  unfolding checkMandatory_def by (intro stepIn_assignWhen plain_intro) simp_all

lemma checkMaxLength_step: "stepIn (plainMessages field) k (checkMaxLength field k v)"
  unfolding checkMaxLength_def
  by (auto split: option.splits intro!: stepIn_skip stepIn_whenBlock stepIn_assignWhen plain_intro)

lemma checkMinLength_step: "stepIn (plainMessages field) k (checkMinLength field k v)"
  unfolding checkMinLength_def
  by (auto split: option.splits intro!: stepIn_skip stepIn_whenBlock stepIn_assignWhen plain_intro)

lemma checkNumber_step: "stepIn (plainMessages field) k (checkNumber field k v)"
  unfolding checkNumber_def
  by (auto intro!: stepIn_whenBlock stepIn_assignWhen plain_intro)

lemma checkDate_step: "stepIn (plainMessages field) k (checkDate rt field k v)"
  unfolding checkDate_def
  by (auto intro!: stepIn_whenBlock stepIn_assignWhen plain_intro)

lemma checkVideo_step: "stepIn (plainMessages field) k (checkVideo field k v)"
  unfolding checkVideo_def
  by (auto intro!: stepIn_whenBlock stepIn_assignWhen plain_intro)

lemma checkEmail_step: "stepIn (plainMessages field) k (checkEmail field k v)"
  unfolding checkEmail_def by (intro stepIn_assignWhen plain_intro) simp_all

lemma checkPhone_step: "stepIn (plainMessages field) k (checkPhone field k v)"
  unfolding checkPhone_def by (intro stepIn_assignWhen plain_intro) simp_all

lemma checkImage_step: "stepIn {m. m \<noteq> []} k (checkImage subSection field k v)"
  unfolding checkImage_def Let_def
  by (auto intro!: stepIn_whenBlock stepIn_assignWhen)

lemma checkImage_optional: "\<not> f_mandatory field \<Longrightarrow> checkImage subSection field k v = Inr"
  by (simp add: checkImage_def whenBlock_def fun_eq_iff)

lemma plainMessages_nonempty: "plainMessages field \<subseteq> {m. m \<noteq> []}"
  by (auto simp: plainMessages_def)

lemma validateField_step:
  "stepIn {m. m \<noteq> []} (getFieldKey (s_name section) (ss_name subSection) field)
     (validateField rt vals section subSection field)"
proof (cases "f_isHidden field")
  case True
  then have "validateField rt vals section subSection field = Inr"
    by (simp add: validateField_def fun_eq_iff)
  then show ?thesis by (simp add: stepIn_skip)
next
  case False
  let ?k = "getFieldKey (s_name section) (ss_name subSection) field"
  let ?v = "lookupOrEmpty vals ?k"
  note plain = stepIn_mono [OF _ plainMessages_nonempty]
  have "stepIn {m. m \<noteq> []} ?k (runChecks
           [checkMandatory field ?k ?v, checkMaxLength field ?k ?v, checkMinLength field ?k ?v,
            checkNumber field ?k ?v, checkDate rt field ?k ?v, checkImage subSection field ?k ?v,
            checkVideo field ?k ?v, checkEmail field ?k ?v, checkPhone field ?k ?v])"
    by (rule stepIn_runChecks)
      (simp add: plain [OF checkMandatory_step] plain [OF checkMaxLength_step]
        plain [OF checkMinLength_step] plain [OF checkNumber_step] plain [OF checkDate_step]
        checkImage_step plain [OF checkVideo_step] plain [OF checkEmail_step]
        plain [OF checkPhone_step])
  moreover from False have "validateField rt vals section subSection field = runChecks
           [checkMandatory field ?k ?v, checkMaxLength field ?k ?v, checkMinLength field ?k ?v,
            checkNumber field ?k ?v, checkDate rt field ?k ?v, checkImage subSection field ?k ?v,
            checkVideo field ?k ?v, checkEmail field ?k ?v, checkPhone field ?k ?v]"
    by (simp add: validateField_def fun_eq_iff Let_def)
  ultimately show ?thesis by simp
qed

lemma validateField_optional_image_step:
  assumes "\<not> f_mandatory field"
  shows "stepIn (plainMessages field) (getFieldKey (s_name section) (ss_name subSection) field)
     (validateField rt vals section subSection field)"
proof (cases "f_isHidden field")
  case True
  then have "validateField rt vals section subSection field = Inr"
    by (simp add: validateField_def fun_eq_iff)
  then show ?thesis by (simp add: stepIn_skip)
next
  case False
  let ?k = "getFieldKey (s_name section) (ss_name subSection) field"
  let ?v = "lookupOrEmpty vals ?k"
  have "stepIn (plainMessages field) ?k (runChecks
           [checkMandatory field ?k ?v, checkMaxLength field ?k ?v, checkMinLength field ?k ?v,
            checkNumber field ?k ?v, checkDate rt field ?k ?v, checkImage subSection field ?k ?v,
            checkVideo field ?k ?v, checkEmail field ?k ?v, checkPhone field ?k ?v])"
    by (rule stepIn_runChecks)
      (simp add: checkMandatory_step checkMaxLength_step checkMinLength_step checkNumber_step
        checkDate_step checkImage_optional [OF assms] stepIn_skip checkVideo_step checkEmail_step
        checkPhone_step)
  moreover from False have "validateField rt vals section subSection field = runChecks
           [checkMandatory field ?k ?v, checkMaxLength field ?k ?v, checkMinLength field ?k ?v,
            checkNumber field ?k ?v, checkDate rt field ?k ?v, checkImage subSection field ?k ?v,
            checkVideo field ?k ?v, checkEmail field ?k ?v, checkPhone field ?k ?v]"
    by (simp add: validateField_def fun_eq_iff Let_def)
  ultimately show ?thesis by simp
qed

subsection \<open>The nested loops as one loop over the walk\<close>

lemma forEachE_append:
  "forEachE f (xs @ ys) s = (case forEachE f xs s of Inl e \<Rightarrow> Inl e | Inr s' \<Rightarrow> forEachE f ys s')"
  by (induction xs arbitrary: s) (auto split: sum.splits)

lemma forEachE_map: "forEachE f (map g xs) s = forEachE (\<lambda>x. f (g x)) xs s"
  by (induction xs arbitrary: s) (auto split: sum.splits)

lemma forEachE_concat:
  assumes "\<And>x s. x \<in> set xs \<Longrightarrow> f x s = forEachE g (h x) s"
  shows "forEachE f xs s = forEachE g (concat (map h xs)) s"
  using assms
proof (induction xs arbitrary: s)
  case Nil
  show ?case by simp
next
  case (Cons x xs)
  have "forEachE f xs s' = forEachE g (concat (map h xs)) s'" for s'
    by (rule Cons.IH) (simp add: Cons.prems)
  then show ?case by (simp add: forEachE_append Cons.prems split: sum.splits)
qed

lemma forEachE_cong:
  "(\<And>x s. x \<in> set xs \<Longrightarrow> f x s = g x s) \<Longrightarrow> forEachE f xs s = forEachE g xs s"
  by (induction xs arbitrary: s) (auto split: sum.splits)

lemma validateSubSection_flat:
  "validateSubSection rt vals section subSection e
     = forEachE (validateTriple rt vals) (subSectionTriples section subSection) e"
  by (simp add: validateSubSection_def subSectionTriples_def forEachE_map validateTriple_def)

lemma sectionTriples_visible:
  "filter (\<lambda>t. s_name (fst t) \<in> visible) (sectionTriples section)
     = (if s_name section \<in> visible then sectionTriples section else [])"
proof -
  have "\<forall>t \<in> set (sectionTriples section). fst t = section"
    by (auto simp: sectionTriples_def subSectionTriples_def)
  then show ?thesis by (auto simp: filter_empty_conv intro: filter_True)
qed

lemma validateSection_flat:
  "validateSection rt vals visible section e
     = forEachE (validateTriple rt vals) (filter (\<lambda>t. s_name (fst t) \<in> visible) (sectionTriples section)) e"
proof (cases "s_name section \<in> visible")
  case True
  have "forEachE (validateSubSection rt vals section) (s_subSections section) e
          = forEachE (validateTriple rt vals) (concat (map (subSectionTriples section) (s_subSections section))) e"
    by (rule forEachE_concat) (rule validateSubSection_flat)
  then have "forEachE (validateSubSection rt vals section) (s_subSections section) e
          = forEachE (validateTriple rt vals) (sectionTriples section) e"
    by (simp add: sectionTriples_def)
  with True show ?thesis
    by (simp add: validateSection_def sectionTriples_visible)
next
  case False
  then show ?thesis by (simp add: validateSection_def sectionTriples_visible)
qed

lemma validateSections_flat:
  "forEachE (validateSection rt vals visible) (tw_sections (fd_templateWrap fd)) e
     = forEachE (validateTriple rt vals) (visibleWalk visible fd) e"
proof -
  have "forEachE (validateSection rt vals visible) secs e
     = forEachE (validateTriple rt vals)
         (concat (map (\<lambda>s. filter (\<lambda>t. s_name (fst t) \<in> visible) (sectionTriples s)) secs)) e" for secs
    by (rule forEachE_concat) (rule validateSection_flat)
  then show ?thesis
    by (simp add: visibleWalk_def walkFields_def filter_concat comp_def)
qed

lemma validateForm_flat:
  "validateForm rt (Some fd) st =
     (case forEachE (validateTriple rt (formValues st)) (visibleWalk (visibleSections st) fd) [] of
        Inl x \<Rightarrow> Inl x
      | Inr newErrors \<Rightarrow> Inr (\<lparr> isValid = (newErrors = []), v_errors = newErrors \<rparr>,
                              st \<lparr> errors := newErrors \<rparr>))"
  by (simp add: validateForm_def validateSections_flat split: sum.splits)

lemma validateTriple_step: "stepIn {m. m \<noteq> []} (keyOf t) (validateTriple rt vals t)"
  by (cases t) (simp add: validateTriple_def keyOf_def validateField_step)

lemma keyOf_nonempty: "keyOf t \<noteq> []"
  by (cases t) (simp add: keyOf_def getFieldKey_def)

lemma validateForm_Some_cases:
  assumes "validateForm rt (Some fd) st = Inr (res, st')"
  shows "forEachE (validateTriple rt (formValues st)) (visibleWalk (visibleSections st) fd) [] = Inr (v_errors res)
       \<and> isValid res = (v_errors res = []) \<and> st' = st \<lparr> errors := v_errors res \<rparr>"
  using assms by (auto simp: validateForm_flat split: sum.splits)

subsection \<open>What a loop of keyed steps does to the error map\<close>

lemma update_hd: "e \<noteq> [] \<Longrightarrow> fst (hd (AList.update k m e)) = fst (hd e)"
  by (cases e) auto

lemma forEachE_first_key:
  assumes "\<forall>t \<in> set ts. stepIn M (key t) (step t)"
    and "forEachE step ts e = Inr e'"
  shows "(e \<noteq> [] \<longrightarrow> e' \<noteq> [] \<and> fst (hd e') = fst (hd e))
       \<and> (e = [] \<longrightarrow> (case find (\<lambda>t. step t [] \<noteq> Inr []) ts of
                          None \<Rightarrow> e' = []
                        | Some t \<Rightarrow> e' \<noteq> [] \<and> fst (hd e') = key t))"
  using assms
proof (induction ts arbitrary: e)
  case Nil
  then show ?case by simp
next
  case (Cons t ts)
  from Cons.prems(1) obtain oc where oc: "step t = applyOutcome (key t) oc"
    by (auto simp: stepIn_def)
  from Cons.prems(2) obtain e1 where e1: "step t e = Inr e1" "forEachE step ts e1 = Inr e'"
    by (auto split: sum.splits)
  from Cons.prems(1) have all: "\<forall>t \<in> set ts. stepIn M (key t) (step t)" by simp
  note IH = Cons.IH [OF all e1(2)]
  show ?case
  proof (cases oc)
    case Skip
    with oc e1(1) have "e1 = e" "step t [] = Inr []" by (simp_all add: applyOutcome_def)
    with IH show ?thesis by simp
  next
    case (Throw x)
    with oc e1(1) show ?thesis by (simp add: applyOutcome_def)
  next
    case (Assign m)
    with oc e1(1) have u: "e1 = AList.update (key t) m e" "step t [] \<noteq> Inr []"
      by (auto simp: applyOutcome_def)
    then have ne: "e1 \<noteq> []" by simp
    have "e = [] \<Longrightarrow> fst (hd e1) = key t" using u(1) by simp
    moreover have "e \<noteq> [] \<Longrightarrow> fst (hd e1) = fst (hd e)" using u(1) by (simp add: update_hd)
    ultimately show ?thesis using IH ne u(2) by auto
  qed
qed

lemma update_messages:
  "messagesNonEmpty e \<Longrightarrow> m \<noteq> [] \<Longrightarrow> messagesNonEmpty (AList.update k m e)"
  by (induction e) (auto simp: messagesNonEmpty_def)

lemma forEachE_messages:
  assumes "\<forall>t \<in> set ts. stepIn {m. m \<noteq> []} (key t) (step t)"
    and "forEachE step ts e = Inr e'" and "messagesNonEmpty e"
  shows "messagesNonEmpty e'"
  using assms
proof (induction ts arbitrary: e)
  case Nil
  then show ?case by simp
next
  case (Cons t ts)
  from Cons.prems(1) obtain oc where oc: "step t = applyOutcome (key t) oc" "\<forall>m. oc = Assign m \<longrightarrow> m \<noteq> []"
    by (auto simp: stepIn_def)
  from Cons.prems(2) obtain e1 where e1: "step t e = Inr e1" "forEachE step ts e1 = Inr e'"
    by (auto split: sum.splits)
  from oc e1(1) Cons.prems(3) have "messagesNonEmpty e1"
    by (cases oc) (auto simp: applyOutcome_def update_messages)
  with Cons.IH [OF _ e1(2)] Cons.prems(1) show ?case by simp
qed

lemma forEachE_entry_invariant:
  assumes "forEachE step ts e = Inr e'" and "Q (map_of e k)"
    and "\<forall>t \<in> set ts. \<forall>a b. step t a = Inr b \<longrightarrow> Q (map_of a k) \<longrightarrow> Q (map_of b k)"
  shows "Q (map_of e' k)"
  using assms
proof (induction ts arbitrary: e)
  case Nil
  then show ?case by simp
next
  case (Cons t ts)
  from Cons.prems(1) obtain e1 where e1: "step t e = Inr e1" "forEachE step ts e1 = Inr e'"
    by (auto split: sum.splits)
  from Cons.prems(3) e1(1) Cons.prems(2) have "Q (map_of e1 k)" by simp
  moreover from Cons.prems(3)
  have "\<forall>t \<in> set ts. \<forall>a b. step t a = Inr b \<longrightarrow> Q (map_of a k) \<longrightarrow> Q (map_of b k)" by simp
  ultimately show ?case using e1(2) by (intro Cons.IH)
qed

lemma forEachE_entry_established:
  assumes "forEachE step ts e = Inr e'" and "t \<in> set ts"
    and "\<forall>a b. step t a = Inr b \<longrightarrow> Q (map_of b k)"
    and "\<forall>u \<in> set ts. \<forall>a b. step u a = Inr b \<longrightarrow> Q (map_of a k) \<longrightarrow> Q (map_of b k)"
  shows "Q (map_of e' k)"
  using assms
proof (induction ts arbitrary: e)
  case Nil
  then show ?case by simp
next
  case (Cons u ts)
  from Cons.prems(1) obtain e1 where e1: "step u e = Inr e1" "forEachE step ts e1 = Inr e'"
    by (auto split: sum.splits)
  from Cons.prems(4)
  have rest: "\<forall>u \<in> set ts. \<forall>a b. step u a = Inr b \<longrightarrow> Q (map_of a k) \<longrightarrow> Q (map_of b k)" by simp
  show ?case
  proof (cases "u = t")
    case True
    with e1(1) Cons.prems(3) have "Q (map_of e1 k)" by simp
    with e1(2) show ?thesis using rest by (rule forEachE_entry_invariant)
  next
    case False
    with Cons.prems(2) have "t \<in> set ts" by simp
    with e1(2) show ?thesis using Cons.prems(3) rest by (rule Cons.IH)
  qed
qed

lemma step_other_key:
  assumes "stepIn M k' c" "c a = Inr b" "k' \<noteq> k"
  shows "map_of b k = map_of a k"
proof -
  from assms(1) obtain oc where "c = applyOutcome k' oc" by (auto simp: stepIn_def)
  with assms(2,3) show ?thesis
    by (cases oc) (auto simp: applyOutcome_def update_conv')
qed

lemma step_same_key:
  assumes "stepIn M k c" "c a = Inr b"
  shows "map_of b k = map_of a k \<or> (\<exists>m \<in> M. map_of b k = Some m)"
proof -
  from assms(1) obtain oc where "c = applyOutcome k oc" "\<forall>m. oc = Assign m \<longrightarrow> m \<in> M"
    by (auto simp: stepIn_def)
  with assms(2) show ?thesis
    by (cases oc) (auto simp: applyOutcome_def update_conv')
qed

lemma find_filter: "find P (filter Q xs) = find (\<lambda>x. Q x \<and> P x) xs"
  by (induction xs) auto

text \<open>Every message the validator stores is non-empty.\<close>

lemma validateForm_messages:
  assumes "validateForm rt formData st = Inr (res, st')"
  shows "messagesNonEmpty (v_errors res)"
proof (cases formData)
  case None
  with assms show ?thesis by (auto simp: validateForm_def messagesNonEmpty_def)
next
  case (Some fd)
  note V = validateForm_Some_cases [OF assms [unfolded Some]]
  have "\<forall>t \<in> set (visibleWalk (visibleSections st) fd).
          stepIn {m. m \<noteq> []} (keyOf t) (validateTriple rt (formValues st) t)"
    by (simp add: validateTriple_step)
  from forEachE_messages [OF this V [THEN conjunct1]] show ?thesis
    by (simp add: messagesNonEmpty_def)
qed

text \<open>An edit keeps them so.\<close>

lemma errors_fold_applyRule: "errors (fold (applyRule fd sn fn v) rs st) = errors st"
  by (induction rs arbitrary: st) (simp_all add: applyRule_def)

lemma delete_messages: "messagesNonEmpty e \<Longrightarrow> messagesNonEmpty (AList.delete k e)"
  by (induction e) (auto simp: messagesNonEmpty_def)

lemma handleFieldChange_messages:
  "messagesNonEmpty (errors st) \<Longrightarrow> messagesNonEmpty (errors (handleFieldChange formData fieldKey v st))"
  by (cases formData)
    (auto simp: handleFieldChange_def Let_def checkDependentSections_def errors_fold_applyRule
      delete_messages)

subsection \<open>The example forms, evaluated\<close>

lemmas state_defs = birthState_def photoListState_def initialState_def initialize_def initSection_def
  initSubSection_def initField_def valueOrEmpty_def handleFieldChange_def hasError_def
  checkDependentSections_def applyRule_def

lemmas validate_defs = validateForm_def validateSection_def validateSubSection_def validateField_def
  checkMandatory_def checkMaxLength_def checkMinLength_def checkNumber_def checkDate_def
  checkImage_def checkVideo_def checkEmail_def checkPhone_def whenBlock_def assignWhen_def
  lookupOrEmpty_def js_truthy_def js_trim_def js_length_def listCoerce_def includesAt_def
  stripNonDigits_def trimString_def isWhiteSpace_def handleSubmit_def firstErrorKey_def

lemma iso_2030: "isoDateValue (JStr ''2030-01-01'') = Some 1893456000000"
  by code_simp

lemma birthState_eval:
  "birthState = initialState \<lparr> formValues := [birthKey \<mapsto> JStr ''2030-01-01''], visibleSections := {''A''} \<rparr>"
  by (simp add: state_defs schema_defs walk_defs Let_def)

lemma orderState_eval:
  "orderState = initialState \<lparr> formValues := [''A__S__Second__Second'' \<mapsto> JStr [], ''A__S__First__First'' \<mapsto> JStr []],
      visibleSections := {''A''} \<rparr>"
  by (simp add: orderState_def state_defs schema_defs walk_defs Let_def)

lemma orderState_validate:
  "validateForm (isoRuntime 0) (Some orderSchema) orderState
     = Inr (\<lparr> isValid = False, v_errors = [(''A__S__Second__Second'', ''Second is required''),
                                            (''A__S__First__First'', ''First is required'')] \<rparr>,
            orderState \<lparr> errors := [(''A__S__Second__Second'', ''Second is required''),
                                            (''A__S__First__First'', ''First is required'')] \<rparr>)"
  unfolding orderState_eval
  by (simp add: validate_defs schema_defs walk_defs isoRuntime_def initialState_def)

lemma orderState_vals:
  "formValues orderState = [''A__S__Second__Second'' \<mapsto> JStr [], ''A__S__First__First'' \<mapsto> JStr []]"
  "visibleSections orderState = {''A''}"
  by (simp_all add: orderState_eval initialState_def)

lemma lateKey: "keyOf (orderSec, orderSub, lateField) = ''A__S__Second__Second''"
  by (simp add: schema_defs walk_defs)

lemma depState_validate:
  "validateForm (isoRuntime 0) (Some depSchema) depState
     = Inr (\<lparr> isValid = True, v_errors = [] \<rparr>, depState \<lparr> errors := [] \<rparr>)"
  by (simp add: depState_def validate_defs state_defs schema_defs walk_defs isoRuntime_def
      startsWith_def)

lemma photoState_eval:
  "photoState = initialState \<lparr> formValues := [photoKey \<mapsto> JStr ''img.png''], visibleSections := {''A''} \<rparr>"
  by (simp add: photoState_def state_defs schema_defs walk_defs Let_def)

lemma optPhotoState_eval:
  "optPhotoState = initialState \<lparr> formValues := [photoKey \<mapsto> JStr []], visibleSections := {''A''} \<rparr>"
  by (simp add: optPhotoState_def state_defs schema_defs walk_defs Let_def)

lemma photoState_validate:
  "validateForm (isoRuntime 0) (Some photoSchema) photoState
     = Inr (\<lparr> isValid = False, v_errors = [(photoKey, ''Photo requires at least 2 image(s).'')] \<rparr>,
            photoState \<lparr> errors := [(photoKey, ''Photo requires at least 2 image(s).'')] \<rparr>)"
  unfolding photoState_eval
  by (simp add: validate_defs schema_defs walk_defs initialState_def show_int_def show_nat.simps digitChar_def)

lemma optPhotoState_validate:
  "validateForm (isoRuntime 0) (Some optPhotoSchema) optPhotoState
     = Inr (\<lparr> isValid = True, v_errors = [] \<rparr>, optPhotoState \<lparr> errors := [] \<rparr>)"
  unfolding optPhotoState_eval
  by (simp add: validate_defs schema_defs walk_defs initialState_def)

subsection \<open>The first failing field\<close>

text \<open>
  The key handed to the scroll, the first key of the returned error map, is the key of the
  first failing field of the walk in list order: \<open>validateForm\<close> visits the fields of a
  subsection as they are listed and never sorts them by order index.
\<close>

lemma first_error_in_list_order:
  assumes "validateForm rt (Some fd) st = Inr (res, st')" and "v_errors res \<noteq> []"
  shows "\<exists>t. find (fieldFails rt (formValues st) (visibleSections st)) (walkFields fd) = Some t
           \<and> handleSubmit rt (Some fd) st = Inr (ScrollTo (Some (keyOf t)), st')"
proof -
  let ?step = "validateTriple rt (formValues st)"
  let ?ts = "visibleWalk (visibleSections st) fd"
  note V = validateForm_Some_cases [OF assms(1)]
  have steps: "\<forall>t \<in> set ?ts. stepIn {m. m \<noteq> []} (keyOf t) (?step t)"
    by (simp add: validateTriple_step)
  from forEachE_first_key [OF steps V [THEN conjunct1]] assms(2)
  obtain t where t: "find (\<lambda>t. ?step t [] \<noteq> Inr []) ?ts = Some t" "fst (hd (v_errors res)) = keyOf t"
    by (auto split: option.splits)
  from t(1) have f: "find (fieldFails rt (formValues st) (visibleSections st)) (walkFields fd) = Some t"
    by (simp add: visibleWalk_def find_filter fieldFails_def [abs_def])
  from assms(2) t(2) have "firstErrorKey (v_errors res) = Some (keyOf t)"
    by (cases "v_errors res") (auto simp: firstErrorKey_def keyOf_nonempty)
  with assms V have "handleSubmit rt (Some fd) st = Inr (ScrollTo (Some (keyOf t)), st')"
    by (simp add: handleSubmit_def)
  with f show ?thesis by blast
qed

text \<open>
  C8 does not hold of the code. In a subsection that lists the field of order index 2
  before the field of order index 1, both mandatory and empty, \<open>handleSubmit\<close> scrolls to
  the key of the field listed first. The first failing field of the walk that sorts the
  fields of a subsection by ascending order index, the order in which FormSection.tsx
  paints them, is the other field, and its key is a different one.
\<close>

theorem handleSubmit_scroll_ignores_order:
  "handleSubmit (isoRuntime 0) (Some orderSchema) orderState
     = Inr (ScrollTo (Some (keyOf (orderSec, orderSub, lateField))),
            orderState \<lparr> errors := [(''A__S__Second__Second'', ''Second is required''),
                                            (''A__S__First__First'', ''First is required'')] \<rparr>)
   \<and> find (fieldFails (isoRuntime 0) (formValues orderState) (visibleSections orderState))
        (specWalkFields orderSchema) = Some (orderSec, orderSub, earlyField)
   \<and> keyOf (orderSec, orderSub, lateField) \<noteq> keyOf (orderSec, orderSub, earlyField)"
proof -
  have "find (fieldFails (isoRuntime 0) (formValues orderState) (visibleSections orderState))
        (specWalkFields orderSchema) = Some (orderSec, orderSub, earlyField)"
    unfolding orderState_vals
    by (simp add: specWalkFields_def orderOrZero_def fieldFails_def validateTriple_def
        validate_defs schema_defs walk_defs)
  moreover have "keyOf (orderSec, orderSub, lateField) \<noteq> keyOf (orderSec, orderSub, earlyField)"
    by (simp add: schema_defs walk_defs)
  moreover have "handleSubmit (isoRuntime 0) (Some orderSchema) orderState
     = Inr (ScrollTo (Some (keyOf (orderSec, orderSub, lateField))),
            orderState \<lparr> errors := [(''A__S__Second__Second'', ''Second is required''),
                                            (''A__S__First__First'', ''First is required'')] \<rparr>)"
    by (simp add: handleSubmit_def orderState_validate firstErrorKey_def lateKey)
  ultimately show ?thesis by blast
qed

subsection \<open>Submission\<close>

text \<open>
  C7. For a loaded schema (the form, and with it the submit handler, is only rendered
  then), \<open>handleSubmit\<close> calls \<open>onSubmit\<close> exactly when \<open>validateForm\<close> returns an empty
  error map, and it passes the value store; whatever a submit does, the value store
  after it is the value store before it. A validation that fails a check, or throws,
  calls nothing.
\<close>

theorem onSubmit_iff_valid:
  "((\<exists>vals st'. handleSubmit rt (Some fd) st = Inr (OnSubmit vals, st'))
      = (\<exists>res st'. validateForm rt (Some fd) st = Inr (res, st') \<and> v_errors res = []))
   \<and> (\<forall>eff st'. handleSubmit rt (Some fd) st = Inr (eff, st') \<longrightarrow>
         formValues st' = formValues st \<and> (\<forall>vals. eff = OnSubmit vals \<longrightarrow> vals = formValues st))"
proof (cases "validateForm rt (Some fd) st")
  case (Inl x)
  then show ?thesis by (simp add: handleSubmit_def)
next
  case (Inr p)
  obtain res st1 where p: "p = (res, st1)" by (cases p)
  with Inr have v: "validateForm rt (Some fd) st = Inr (res, st1)" by simp
  note V = validateForm_Some_cases [OF v]
  from v V show ?thesis by (auto simp: handleSubmit_def)
qed

theorem onSubmit_iff_valid_witness:
  "handleSubmit (isoRuntime 0) (Some orderSchema) orderState
     = Inr (ScrollTo (Some ''A__S__Second__Second''),
            orderState \<lparr> errors := [(''A__S__Second__Second'', ''Second is required''),
                                            (''A__S__First__First'', ''First is required'')] \<rparr>)
   \<and> formValues (orderState \<lparr> errors := [(''A__S__Second__Second'', ''Second is required''),
                                            (''A__S__First__First'', ''First is required'')] \<rparr>)
       = formValues orderState
   \<and> \<not> (\<exists>vals st'. handleSubmit (isoRuntime 0) (Some orderSchema) orderState = Inr (OnSubmit vals, st'))
   \<and> (\<exists>vals st'. handleSubmit (isoRuntime 0) (Some depSchema) depState = Inr (OnSubmit vals, st'))"
proof -
  let ?st' = "orderState \<lparr> errors := [(''A__S__Second__Second'', ''Second is required''),
                                            (''A__S__First__First'', ''First is required'')] \<rparr>"
  have h: "handleSubmit (isoRuntime 0) (Some orderSchema) orderState
     = Inr (ScrollTo (Some ''A__S__Second__Second''), ?st')"
    by (simp add: handleSubmit_def orderState_validate firstErrorKey_def)
  note T = onSubmit_iff_valid [of "isoRuntime 0" orderSchema orderState]
  from T [THEN conjunct2, rule_format, OF h] have "formValues ?st' = formValues orderState"
    by simp
  moreover from T [THEN conjunct1] orderState_validate
  have "\<not> (\<exists>vals st'. handleSubmit (isoRuntime 0) (Some orderSchema) orderState = Inr (OnSubmit vals, st'))"
    by simp
  moreover from onSubmit_iff_valid [of "isoRuntime 0" depSchema depState, THEN conjunct1] depState_validate
  have "\<exists>vals st'. handleSubmit (isoRuntime 0) (Some depSchema) depState = Inr (OnSubmit vals, st')"
    by simp
  ultimately show ?thesis using h by blast
qed

text \<open>Without a schema no form is rendered; the handler itself would call nothing.\<close>

lemma handleSubmit_no_schema: "handleSubmit rt None st = Inr (ScrollTo None, st)"
  by (simp add: handleSubmit_def validateForm_def firstErrorKey_def)

subsection \<open>Purity of the validator\<close>

lemma checkDate_clock:
  assumes "\<not> (f_inputType field = ''DATE'' \<and> \<not> f_isFutureDate field \<and> js_truthy v)"
  shows "checkDate (rt \<lparr> rt_now := n1 \<rparr>) field k v = checkDate (rt \<lparr> rt_now := n2 \<rparr>) field k v"
  using assms by (auto simp: checkDate_def whenBlock_def assignWhen_def fun_eq_iff)

lemma validateTriple_clock:
  assumes "\<not> readsClock vals visible t" "s_name (fst t) \<in> visible"
  shows "validateTriple (rt \<lparr> rt_now := n1 \<rparr>) vals t e = validateTriple (rt \<lparr> rt_now := n2 \<rparr>) vals t e"
proof -
  obtain s ss f where t: "t = (s, ss, f)" by (cases t)
  show ?thesis
  proof (cases "f_isHidden f")
    case True
    with t show ?thesis by (simp add: validateTriple_def validateField_def)
  next
    case False
    with assms t have "\<not> (f_inputType f = ''DATE'' \<and> \<not> f_isFutureDate f
        \<and> js_truthy (lookupOrEmpty vals (getFieldKey (s_name s) (ss_name ss) f)))"
      by (auto simp: readsClock_def)
    from checkDate_clock [OF this, where rt = rt and ?n1.0 = n1 and ?n2.0 = n2] t show ?thesis
      by (simp add: validateTriple_def validateField_def Let_def del: runChecks.simps)
  qed
qed

text \<open>
  C3 (as amended). \<open>validateForm\<close> never changes the value store, the visible set or the
  expanded set. Its result on a triple (schema, value store, visible sections) does not
  depend on the moment of the invocation whenever no field reads the clock: no shown
  field of date subtype in a visible section forbids future dates and holds a non-empty
  value.
\<close>

theorem validateForm_pure:
  "(\<forall>res st'. validateForm rt formData st = Inr (res, st') \<longrightarrow>
       formValues st' = formValues st \<and> visibleSections st' = visibleSections st
       \<and> expandedSections st' = expandedSections st)
   \<and> ((\<forall>fd. formData = Some fd \<longrightarrow>
          (\<forall>t \<in> set (walkFields fd). \<not> readsClock (formValues st) (visibleSections st) t))
      \<longrightarrow> validateForm (rt \<lparr> rt_now := n1 \<rparr>) formData st
          = validateForm (rt \<lparr> rt_now := n2 \<rparr>) formData st)"
proof (rule conjI)
  show "\<forall>res st'. validateForm rt formData st = Inr (res, st') \<longrightarrow>
       formValues st' = formValues st \<and> visibleSections st' = visibleSections st
       \<and> expandedSections st' = expandedSections st"
    by (auto simp: validateForm_def split: option.splits sum.splits)
next
  show "(\<forall>fd. formData = Some fd \<longrightarrow>
          (\<forall>t \<in> set (walkFields fd). \<not> readsClock (formValues st) (visibleSections st) t))
      \<longrightarrow> validateForm (rt \<lparr> rt_now := n1 \<rparr>) formData st
          = validateForm (rt \<lparr> rt_now := n2 \<rparr>) formData st"
  proof
  assume h: "\<forall>fd. formData = Some fd \<longrightarrow>
          (\<forall>t \<in> set (walkFields fd). \<not> readsClock (formValues st) (visibleSections st) t)"
  show "validateForm (rt \<lparr> rt_now := n1 \<rparr>) formData st = validateForm (rt \<lparr> rt_now := n2 \<rparr>) formData st"
  proof (cases formData)
    case None
    then show ?thesis by (simp add: validateForm_def)
  next
    case (Some fd)
    have "forEachE (validateTriple (rt \<lparr> rt_now := n1 \<rparr>) (formValues st)) (visibleWalk (visibleSections st) fd) []
        = forEachE (validateTriple (rt \<lparr> rt_now := n2 \<rparr>) (formValues st)) (visibleWalk (visibleSections st) fd) []"
    proof (rule forEachE_cong)
      fix t e assume "t \<in> set (visibleWalk (visibleSections st) fd)"
      then have "t \<in> set (walkFields fd)" "s_name (fst t) \<in> visibleSections st"
        by (simp_all add: visibleWalk_def)
      with h Some show "validateTriple (rt \<lparr> rt_now := n1 \<rparr>) (formValues st) t e
          = validateTriple (rt \<lparr> rt_now := n2 \<rparr>) (formValues st) t e"
        by (intro validateTriple_clock) auto
    qed
    with Some show ?thesis by (simp add: validateForm_flat)
  qed
  qed
qed

theorem validateForm_pure_witness:
  "list_all (\<lambda>t. \<not> readsClock (formValues depState) (visibleSections depState) t) (walkFields depSchema)
   \<and> validateForm ((isoRuntime 0) \<lparr> rt_now := 0 \<rparr>) (Some depSchema) depState
       = validateForm ((isoRuntime 0) \<lparr> rt_now := 1900000000000 \<rparr>) (Some depSchema) depState
   \<and> validateForm (isoRuntime 0) (Some depSchema) depState
       = Inr (\<lparr> isValid = True, v_errors = [] \<rparr>, depState \<lparr> errors := [] \<rparr>)
   \<and> formValues (depState \<lparr> errors := [] \<rparr>) = formValues depState"
proof -
  have h: "\<forall>fd. Some depSchema = Some fd \<longrightarrow>
     (\<forall>t \<in> set (walkFields fd). \<not> readsClock (formValues depState) (visibleSections depState) t)"
    by (simp add: readsClock_def schema_defs walk_defs)
  note v = depState_validate
  note T = validateForm_pure [of "isoRuntime 0" "Some depSchema" depState 0 1900000000000]
  from T [THEN conjunct2, THEN mp, OF h] T [THEN conjunct1, rule_format, OF v] h v
  show ?thesis by (simp add: list_all_iff)
qed

text \<open>
  C3 (as stated) fails: the future-date check compares with the current time, so the same
  triple validated at two different moments gives two different error maps.
\<close>

theorem validateForm_pure_counterexample:
  "validateForm (isoRuntime 0) (Some birthSchema) birthState
     = Inr (\<lparr> isValid = False, v_errors = [(birthKey, ''Birth cannot be a future date'')] \<rparr>,
            birthState \<lparr> errors := [(birthKey, ''Birth cannot be a future date'')] \<rparr>)
   \<and> validateForm (isoRuntime 1900000000000) (Some birthSchema) birthState
     = Inr (\<lparr> isValid = True, v_errors = [] \<rparr>, birthState \<lparr> errors := [] \<rparr>)"
  unfolding birthState_eval
  by (simp add: validate_defs schema_defs walk_defs isoRuntime_def iso_2030 initialState_def)

subsection \<open>Value shapes\<close>

text \<open>
  C4 does not hold of the code. With a list of two attachments stored for a mandatory
  image field, the mandatory check calls \<open>trim\<close> on the list and \<open>validateForm\<close> throws a
  TypeError before it reaches the list coercion of the image block.
\<close>

theorem validateForm_throws_on_attachment_list:
  "validateForm (isoRuntime 0) (Some photoSchema) photoListState = Inl TypeError"
  by (simp add: validate_defs state_defs schema_defs walk_defs Let_def)

lemma forEachE_Inr_step:
  "forEachE step ts e = Inr e' \<Longrightarrow> t \<in> set ts \<Longrightarrow> \<exists>a b. step t a = Inr b"
proof (induction ts arbitrary: e)
  case Nil
  then show ?case by simp
next
  case (Cons u ts)
  from Cons.prems(1) obtain e1 where e1: "step u e = Inr e1" "forEachE step ts e1 = Inr e'"
    by (auto split: sum.splits)
  show ?case
  proof (cases "u = t")
    case True
    with e1(1) show ?thesis by blast
  next
    case False
    with Cons.prems(2) have "t \<in> set ts" by simp
    with Cons.IH [OF e1(2)] show ?thesis by blast
  qed
qed

lemma validateField_mandatory_string:
  assumes "validateField rt vals sec ss field a = Inr b" "f_mandatory field" "\<not> f_isHidden field"
  shows "\<exists>s. lookupOrEmpty vals (getFieldKey (s_name sec) (ss_name ss) field) = JStr s"
proof -
  let ?k = "getFieldKey (s_name sec) (ss_name ss) field"
  let ?v = "lookupOrEmpty vals ?k"
  from assms(1,3) obtain a1 where "checkMandatory field ?k ?v a = Inr a1"
    by (auto simp: validateField_def Let_def split: sum.splits)
  with assms(2) show ?thesis
    by (cases ?v) (auto simp: checkMandatory_def assignWhen_def js_trim_def)
qed

text \<open>
  Whenever a shown mandatory field of a visible section holds a truthy value that is not
  a string (a File, a list of attachments, a checked box), the validation throws.
\<close>

lemma validateForm_throws_on_non_string:
  assumes "(sec, ss, field) \<in> set (walkFields fd)" "s_name sec \<in> visibleSections st"
    and "f_mandatory field" "\<not> f_isHidden field"
    and "formValues st (getFieldKey (s_name sec) (ss_name ss) field) = Some v"
    and "js_truthy v" "\<forall>s. v \<noteq> JStr s"
  shows "validateForm rt (Some fd) st = Inl TypeError"
proof (cases "validateForm rt (Some fd) st")
  case (Inl x)
  then show ?thesis by (cases x) simp
next
  case (Inr p)
  obtain res st' where "p = (res, st')" by (cases p)
  with Inr have fe: "forEachE (validateTriple rt (formValues st)) (visibleWalk (visibleSections st) fd) []
      = Inr (v_errors res)"
    using validateForm_Some_cases by blast
  from assms(1,2) have mem: "(sec, ss, field) \<in> set (visibleWalk (visibleSections st) fd)"
    by (simp add: visibleWalk_def)
  from forEachE_Inr_step [OF fe mem]
  obtain a b where "validateTriple rt (formValues st) (sec, ss, field) a = Inr b"
    by blast
  then have "validateField rt (formValues st) sec ss field a = Inr b"
    by (simp add: validateTriple_def)
  from validateField_mandatory_string [OF this assms(3,4)] assms(5,6,7)
  show ?thesis by (auto simp: lookupOrEmpty_def)
qed

subsection \<open>Attachment counts\<close>

lemma countMessages_not_plain:
  "minCountMessage ss field \<notin> plainMessages field" "maxCountMessage ss field \<notin> plainMessages field"
  by (auto simp: plainMessages_def minCountMessage_def maxCountMessage_def)

lemma checkImage_min:
  assumes "f_fieldType field = ''IMAGE''" "f_mandatory field"
    and "0 < ss_minImageCapture ss" "int (length (listCoerce v)) < ss_minImageCapture ss"
    and "\<not> (0 < ss_maxImageCapture ss \<and> ss_maxImageCapture ss < int (length (listCoerce v)))"
  shows "\<exists>e'. checkImage ss field k v e = Inr e' \<and> map_of e' k = Some (minCountMessage ss field)"
  using assms
  by (auto simp: checkImage_def whenBlock_def assignWhen_def Let_def minCountMessage_def update_conv')

lemma runChecks_Cons_Inr:
  "runChecks (c # cs) a = Inr b \<Longrightarrow> \<exists>a'. c a = Inr a' \<and> runChecks cs a' = Inr b"
  by (auto split: sum.splits)

lemma step_silent:
  assumes "stepIn M k c" "c [] = Inr []"
  shows "c = Inr"
proof -
  from assms(1) obtain oc where oc: "c = applyOutcome k oc" by (auto simp: stepIn_def)
  with assms(2) have "oc = Skip" by (cases oc) (auto simp: applyOutcome_def)
  with oc show ?thesis by (simp add: applyOutcome_def fun_eq_iff)
qed

lemma validateField_min:
  assumes "f_fieldType field = ''IMAGE''" "f_mandatory field" "\<not> f_isHidden field"
    and "laterChecksSilent vals (sec, ss, field)"
    and "0 < ss_minImageCapture ss"
    and "int (length (listCoerce (lookupOrEmpty vals (getFieldKey (s_name sec) (ss_name ss) field))))
           < ss_minImageCapture ss"
    and "validateField rt vals sec ss field a = Inr b"
  shows "map_of b (getFieldKey (s_name sec) (ss_name ss) field) = Some (minCountMessage ss field)"
proof -
  let ?k = "getFieldKey (s_name sec) (ss_name ss) field"
  let ?v = "lookupOrEmpty vals ?k"
  from assms(3,7) have run: "runChecks
           [checkMandatory field ?k ?v, checkMaxLength field ?k ?v, checkMinLength field ?k ?v,
            checkNumber field ?k ?v, checkDate rt field ?k ?v, checkImage ss field ?k ?v,
            checkVideo field ?k ?v, checkEmail field ?k ?v, checkPhone field ?k ?v] a = Inr b"
    by (simp add: validateField_def Let_def del: runChecks.simps)
  from runChecks_Cons_Inr [OF run] obtain a1 where
    a1: "checkMandatory field ?k ?v a = Inr a1"
    and r1: "runChecks [checkMaxLength field ?k ?v, checkMinLength field ?k ?v,
            checkNumber field ?k ?v, checkDate rt field ?k ?v, checkImage ss field ?k ?v,
            checkVideo field ?k ?v, checkEmail field ?k ?v, checkPhone field ?k ?v] a1 = Inr b"
    by blast
  from a1 assms(2) obtain s where s: "?v = JStr s"
    by (cases ?v) (auto simp: checkMandatory_def assignWhen_def js_trim_def)
  then have small: "length (listCoerce ?v) \<le> 1"
    by (simp add: listCoerce_def)
  with assms(6) have nomax: "\<not> (0 < ss_maxImageCapture ss \<and> ss_maxImageCapture ss < int (length (listCoerce ?v)))"
    by auto
  from runChecks_Cons_Inr [OF r1] obtain a2 where
    r2: "runChecks [checkMinLength field ?k ?v,
            checkNumber field ?k ?v, checkDate rt field ?k ?v, checkImage ss field ?k ?v,
            checkVideo field ?k ?v, checkEmail field ?k ?v, checkPhone field ?k ?v] a2 = Inr b"
    by blast
  from runChecks_Cons_Inr [OF r2] obtain a3 where
    r3: "runChecks [checkNumber field ?k ?v, checkDate rt field ?k ?v, checkImage ss field ?k ?v,
            checkVideo field ?k ?v, checkEmail field ?k ?v, checkPhone field ?k ?v] a3 = Inr b"
    by blast
  from runChecks_Cons_Inr [OF r3] obtain a4 where
    r4: "runChecks [checkDate rt field ?k ?v, checkImage ss field ?k ?v,
            checkVideo field ?k ?v, checkEmail field ?k ?v, checkPhone field ?k ?v] a4 = Inr b"
    by blast
  from runChecks_Cons_Inr [OF r4] obtain a5 where
    r5: "runChecks [checkImage ss field ?k ?v,
            checkVideo field ?k ?v, checkEmail field ?k ?v, checkPhone field ?k ?v] a5 = Inr b"
    by blast
  from runChecks_Cons_Inr [OF r5] obtain a6 where
    a6: "checkImage ss field ?k ?v a5 = Inr a6"
    and r6: "runChecks [checkVideo field ?k ?v, checkEmail field ?k ?v, checkPhone field ?k ?v] a6 = Inr b"
    by blast
  from assms(1) have "checkVideo field ?k ?v = Inr"
    by (simp add: checkVideo_def whenBlock_def fun_eq_iff)
  moreover from assms(4) have "checkEmail field ?k ?v = Inr" "checkPhone field ?k ?v = Inr"
    by (auto simp: laterChecksSilent_def Let_def intro: step_silent [OF checkEmail_step]
        step_silent [OF checkPhone_step])
  ultimately have "b = a6" using r6 by simp
  with a6 checkImage_min [OF assms(1,2,5,6) nomax, of ?k a5] show ?thesis by simp
qed

lemma validateForm_min_count:
  assumes "validateForm rt (Some fd) st = Inr (res, st')"
    and "(sec, ss, field) \<in> set (walkFields fd)" "keyUnique fd (sec, ss, field)"
    and "s_name sec \<in> visibleSections st"
    and "f_fieldType field = ''IMAGE''" "f_mandatory field" "\<not> f_isHidden field"
    and "laterChecksSilent (formValues st) (sec, ss, field)"
    and "0 < ss_minImageCapture ss"
    and "int (length (listCoerce (lookupOrEmpty (formValues st) (getFieldKey (s_name sec) (ss_name ss) field))))
           < ss_minImageCapture ss"
  shows "map_of (v_errors res) (getFieldKey (s_name sec) (ss_name ss) field) = Some (minCountMessage ss field)"
proof -
  let ?t = "(sec, ss, field)"
  let ?k = "getFieldKey (s_name sec) (ss_name ss) field"
  let ?step = "validateTriple rt (formValues st)"
  let ?ts = "visibleWalk (visibleSections st) fd"
  let ?Q = "\<lambda>x. x = Some (minCountMessage ss field)"
  note V = validateForm_Some_cases [OF assms(1)]
  have k: "keyOf ?t = ?k" by (simp add: keyOf_def)
  from assms(2,4) have mem: "?t \<in> set ?ts" by (simp add: visibleWalk_def)
  have est: "\<forall>a b. ?step ?t a = Inr b \<longrightarrow> ?Q (map_of b ?k)"
    using validateField_min [OF assms(5-10)] by (simp add: validateTriple_def)
  have pres: "\<forall>u \<in> set ?ts. \<forall>a b. ?step u a = Inr b \<longrightarrow> ?Q (map_of a ?k) \<longrightarrow> ?Q (map_of b ?k)"
  proof (intro ballI allI impI)
    fix u a b assume u: "u \<in> set ?ts" and s: "?step u a = Inr b" and q: "?Q (map_of a ?k)"
    show "?Q (map_of b ?k)"
    proof (cases "keyOf u = ?k")
      case True
      with u assms(3) k have "u = ?t" by (auto simp: keyUnique_def list_all_iff visibleWalk_def)
      with s est show ?thesis by blast
    next
      case False
      from step_other_key [OF validateTriple_step s False] q show ?thesis by simp
    qed
  qed
  from forEachE_entry_established [of ?step ?ts "[]" "v_errors res" ?t ?Q ?k,
      OF V [THEN conjunct1] mem est pres]
  show ?thesis .
qed

lemma validateForm_optional_no_count:
  assumes "validateForm rt (Some fd) st = Inr (res, st')"
    and "(sec, ss, field) \<in> set (walkFields fd)" "keyUnique fd (sec, ss, field)"
    and "\<not> f_mandatory field"
  shows "map_of (v_errors res) (getFieldKey (s_name sec) (ss_name ss) field) \<noteq> Some (minCountMessage ss field)
       \<and> map_of (v_errors res) (getFieldKey (s_name sec) (ss_name ss) field) \<noteq> Some (maxCountMessage ss field)"
proof -
  let ?t = "(sec, ss, field)"
  let ?k = "getFieldKey (s_name sec) (ss_name ss) field"
  let ?step = "validateTriple rt (formValues st)"
  let ?ts = "visibleWalk (visibleSections st) fd"
  let ?Q = "\<lambda>x. x \<noteq> Some (minCountMessage ss field) \<and> x \<noteq> Some (maxCountMessage ss field)"
  note V = validateForm_Some_cases [OF assms(1)]
  have k: "keyOf ?t = ?k" by (simp add: keyOf_def)
  have own: "stepIn (plainMessages field) ?k (?step ?t)"
    using validateField_optional_image_step [OF assms(4)] by (simp add: validateTriple_def)
  have pres: "\<forall>u \<in> set ?ts. \<forall>a b. ?step u a = Inr b \<longrightarrow> ?Q (map_of a ?k) \<longrightarrow> ?Q (map_of b ?k)"
  proof (intro ballI allI impI)
    fix u a b assume u: "u \<in> set ?ts" and s: "?step u a = Inr b" and q: "?Q (map_of a ?k)"
    show "?Q (map_of b ?k)"
    proof (cases "keyOf u = ?k")
      case True
      with u assms(3) k have "u = ?t" by (auto simp: keyUnique_def list_all_iff visibleWalk_def)
      with s step_same_key [OF own] have "map_of b ?k = map_of a ?k \<or> (\<exists>m \<in> plainMessages field. map_of b ?k = Some m)"
        by blast
      with q countMessages_not_plain [of ss field] show ?thesis by auto
    next
      case False
      from step_other_key [OF validateTriple_step s False] q show ?thesis by simp
    qed
  qed
  have "?Q (map_of [] ?k)" by simp
  from forEachE_entry_invariant [of ?step ?ts "[]" "v_errors res" ?Q ?k, OF V [THEN conjunct1] this pres]
  show ?thesis .
qed

text \<open>
  C2 (as amended). For an image-attachment field whose key no other field of the schema
  shares, the count checks are gated by the mandatory flag. If the field is not
  mandatory, \<open>validateForm\<close> reports neither a minimum-count nor a maximum-count error
  for it. If the field is mandatory, shown, in a visible section, and the later email and
  phone checks assign nothing for its value, then \<open>validateForm\<close>, when it returns,
  reports the minimum-count error whenever the declared minimum is positive and the
  list-coerced value has fewer elements.
\<close>

theorem image_count_checks:
  assumes "f_fieldType field = ''IMAGE''"
  shows "(validateForm rt (Some fd) st = Inr (res, st')
            \<and> (sec, ss, field) \<in> set (walkFields fd) \<and> keyUnique fd (sec, ss, field)
            \<and> \<not> f_mandatory field
          \<longrightarrow> map_of (v_errors res) (getFieldKey (s_name sec) (ss_name ss) field) \<noteq> Some (minCountMessage ss field)
            \<and> map_of (v_errors res) (getFieldKey (s_name sec) (ss_name ss) field) \<noteq> Some (maxCountMessage ss field))
       \<and> (validateForm rt (Some fd) st = Inr (res, st')
            \<and> (sec, ss, field) \<in> set (walkFields fd) \<and> keyUnique fd (sec, ss, field)
            \<and> s_name sec \<in> visibleSections st \<and> \<not> f_isHidden field \<and> f_mandatory field
            \<and> laterChecksSilent (formValues st) (sec, ss, field)
            \<and> 0 < ss_minImageCapture ss
            \<and> int (length (listCoerce (lookupOrEmpty (formValues st) (getFieldKey (s_name sec) (ss_name ss) field))))
                 < ss_minImageCapture ss
          \<longrightarrow> map_of (v_errors res) (getFieldKey (s_name sec) (ss_name ss) field) = Some (minCountMessage ss field))"
proof (intro conjI impI)
  assume h: "validateForm rt (Some fd) st = Inr (res, st')
            \<and> (sec, ss, field) \<in> set (walkFields fd) \<and> keyUnique fd (sec, ss, field)
            \<and> \<not> f_mandatory field"
  from validateForm_optional_no_count [of rt fd st res st' sec ss field] h
  show "map_of (v_errors res) (getFieldKey (s_name sec) (ss_name ss) field) \<noteq> Some (minCountMessage ss field)"
    and "map_of (v_errors res) (getFieldKey (s_name sec) (ss_name ss) field) \<noteq> Some (maxCountMessage ss field)"
    by simp_all
next
  assume h: "validateForm rt (Some fd) st = Inr (res, st')
            \<and> (sec, ss, field) \<in> set (walkFields fd) \<and> keyUnique fd (sec, ss, field)
            \<and> s_name sec \<in> visibleSections st \<and> \<not> f_isHidden field \<and> f_mandatory field
            \<and> laterChecksSilent (formValues st) (sec, ss, field)
            \<and> 0 < ss_minImageCapture ss
            \<and> int (length (listCoerce (lookupOrEmpty (formValues st) (getFieldKey (s_name sec) (ss_name ss) field))))
                 < ss_minImageCapture ss"
  with assms show "map_of (v_errors res) (getFieldKey (s_name sec) (ss_name ss) field) = Some (minCountMessage ss field)"
    by (intro validateForm_min_count [of rt fd st res st']) simp_all
qed

theorem image_count_checks_witness:
  "f_fieldType photoField = ''IMAGE''
   \<and> keyUnique photoSchema (photoSec, photoSub, photoField)
   \<and> laterChecksSilent (formValues photoState) (photoSec, photoSub, photoField)
   \<and> validateForm (isoRuntime 0) (Some photoSchema) photoState
        = Inr (\<lparr> isValid = False, v_errors = [(photoKey, ''Photo requires at least 2 image(s).'')] \<rparr>,
               photoState \<lparr> errors := [(photoKey, ''Photo requires at least 2 image(s).'')] \<rparr>)
   \<and> map_of [(photoKey, ''Photo requires at least 2 image(s).'')] photoKey
        = Some (minCountMessage photoSub photoField)
   \<and> f_fieldType optPhotoField = ''IMAGE''
   \<and> keyUnique optPhotoSchema (optPhotoSec, optPhotoSub, optPhotoField)
   \<and> validateForm (isoRuntime 0) (Some optPhotoSchema) optPhotoState
        = Inr (\<lparr> isValid = True, v_errors = [] \<rparr>, optPhotoState \<lparr> errors := [] \<rparr>)
   \<and> map_of [] photoKey \<noteq> Some (minCountMessage optPhotoSub optPhotoField)
   \<and> map_of [] photoKey \<noteq> Some (maxCountMessage optPhotoSub optPhotoField)"
proof -
  have img: "f_fieldType photoField = ''IMAGE''" "f_fieldType optPhotoField = ''IMAGE''"
    by (simp_all add: schema_defs)
  have k: "getFieldKey (s_name photoSec) (ss_name photoSub) photoField = photoKey"
    "getFieldKey (s_name optPhotoSec) (ss_name optPhotoSub) optPhotoField = photoKey"
    by (simp_all add: schema_defs walk_defs)
  have silent: "laterChecksSilent (formValues photoState) (photoSec, photoSub, photoField)"
    by (simp add: laterChecksSilent_def photoState_eval schema_defs walk_defs initialState_def
        lookupOrEmpty_def js_truthy_def checkEmail_def checkPhone_def assignWhen_def)
  have hmin: "validateForm (isoRuntime 0) (Some photoSchema) photoState
        = Inr (\<lparr> isValid = False, v_errors = [(photoKey, ''Photo requires at least 2 image(s).'')] \<rparr>,
               photoState \<lparr> errors := [(photoKey, ''Photo requires at least 2 image(s).'')] \<rparr>)
      \<and> (photoSec, photoSub, photoField) \<in> set (walkFields photoSchema)
      \<and> keyUnique photoSchema (photoSec, photoSub, photoField)
      \<and> s_name photoSec \<in> visibleSections photoState \<and> \<not> f_isHidden photoField \<and> f_mandatory photoField
      \<and> laterChecksSilent (formValues photoState) (photoSec, photoSub, photoField)
      \<and> 0 < ss_minImageCapture photoSub
      \<and> int (length (listCoerce (lookupOrEmpty (formValues photoState)
            (getFieldKey (s_name photoSec) (ss_name photoSub) photoField)))) < ss_minImageCapture photoSub"
    unfolding photoState_validate k using silent
    by (simp add: photoState_eval schema_defs walk_defs keyUnique_def initialState_def
        listCoerce_def lookupOrEmpty_def js_truthy_def)
  have hopt: "validateForm (isoRuntime 0) (Some optPhotoSchema) optPhotoState
        = Inr (\<lparr> isValid = True, v_errors = [] \<rparr>, optPhotoState \<lparr> errors := [] \<rparr>)
      \<and> (optPhotoSec, optPhotoSub, optPhotoField) \<in> set (walkFields optPhotoSchema)
      \<and> keyUnique optPhotoSchema (optPhotoSec, optPhotoSub, optPhotoField)
      \<and> \<not> f_mandatory optPhotoField"
    unfolding optPhotoState_validate
    by (simp add: schema_defs walk_defs keyUnique_def)
  note T2 = image_count_checks [OF img(1), where rt = "isoRuntime 0" and fd = photoSchema
      and st = photoState and ss = photoSub and sec = photoSec, THEN conjunct2, THEN mp, OF hmin]
  note T3 = image_count_checks [OF img(2), where rt = "isoRuntime 0" and fd = optPhotoSchema
      and st = optPhotoState and ss = optPhotoSub and sec = optPhotoSec, THEN conjunct1, THEN mp, OF hopt]
  from T2 T3 img hmin hopt show ?thesis by (simp add: k)
qed

lemma mailPhotoState_eval:
  "mailPhotoState = initialState \<lparr> formValues := [photoKey \<mapsto> JStr ''a@''], visibleSections := {''A''} \<rparr>"
  by (simp add: mailPhotoState_def state_defs schema_defs walk_defs Let_def)

lemma sharedPhotoState_eval:
  "sharedPhotoState = initialState \<lparr> formValues := [photoKey \<mapsto> JStr ''x''], visibleSections := {''A''} \<rparr>"
  by (simp add: sharedPhotoState_def state_defs schema_defs walk_defs Let_def)

lemma mailPhotoState_validate:
  "validateForm (isoRuntime 0) (Some mailPhotoSchema) mailPhotoState
     = Inr (\<lparr> isValid = False, v_errors = [(photoKey, ''Photo must be a valid email address'')] \<rparr>,
            mailPhotoState \<lparr> errors := [(photoKey, ''Photo must be a valid email address'')] \<rparr>)"
  unfolding mailPhotoState_eval
  by (simp add: validate_defs schema_defs walk_defs initialState_def show_int_def show_nat.simps
      digitChar_def startsWith_def emailRegexTest_def js_toString.simps)

lemma parseInt_zero: "parseInt ''0'' = Some 0"
  by code_simp

lemma sharedPhotoState_validate:
  "validateForm (isoRuntime 0) (Some sharedPhotoSchema) sharedPhotoState
     = Inr (\<lparr> isValid = False, v_errors = [(photoKey, ''Photo must be at most 0 characters'')] \<rparr>,
            sharedPhotoState \<lparr> errors := [(photoKey, ''Photo must be at most 0 characters'')] \<rparr>)"
  unfolding sharedPhotoState_eval
  by (simp add: validate_defs schema_defs walk_defs initialState_def show_int_def show_nat.simps
      digitChar_def parseInt_zero)

text \<open>
  C2 (as stated) fails. A shown, non-mandatory image field of a visible section with no
  attachment, in a subsection asking for two, passes validation without any error. A
  mandatory one, below the minimum, ends with the email message when its input subtype is
  text and its value holds an at sign, and with the message of a later field that shares
  its key.
\<close>

theorem image_count_checks_counterexample:
  "(optPhotoSec, optPhotoSub, optPhotoField) \<in> set (walkFields optPhotoSchema)
   \<and> s_name optPhotoSec \<in> visibleSections optPhotoState
   \<and> \<not> f_isHidden optPhotoField \<and> f_fieldType optPhotoField = ''IMAGE''
   \<and> 0 < ss_minImageCapture optPhotoSub
   \<and> int (length (listCoerce (lookupOrEmpty (formValues optPhotoState) (keyOf (optPhotoSec, optPhotoSub, optPhotoField)))))
        < ss_minImageCapture optPhotoSub
   \<and> validateForm (isoRuntime 0) (Some optPhotoSchema) optPhotoState
        = Inr (\<lparr> isValid = True, v_errors = [] \<rparr>, optPhotoState \<lparr> errors := [] \<rparr>)
   \<and> (mailPhotoSec, mailPhotoSub, mailPhotoField) \<in> set (walkFields mailPhotoSchema)
   \<and> s_name mailPhotoSec \<in> visibleSections mailPhotoState
   \<and> \<not> f_isHidden mailPhotoField \<and> f_fieldType mailPhotoField = ''IMAGE''
   \<and> 0 < ss_minImageCapture mailPhotoSub
   \<and> int (length (listCoerce (lookupOrEmpty (formValues mailPhotoState) (keyOf (mailPhotoSec, mailPhotoSub, mailPhotoField)))))
        < ss_minImageCapture mailPhotoSub
   \<and> validateForm (isoRuntime 0) (Some mailPhotoSchema) mailPhotoState
        = Inr (\<lparr> isValid = False, v_errors = [(photoKey, ''Photo must be a valid email address'')] \<rparr>,
            mailPhotoState \<lparr> errors := [(photoKey, ''Photo must be a valid email address'')] \<rparr>)
   \<and> (sharedPhotoSec, sharedPhotoSub, photoField) \<in> set (walkFields sharedPhotoSchema)
   \<and> s_name sharedPhotoSec \<in> visibleSections sharedPhotoState
   \<and> \<not> f_isHidden photoField \<and> f_fieldType photoField = ''IMAGE''
   \<and> 0 < ss_minImageCapture sharedPhotoSub
   \<and> int (length (listCoerce (lookupOrEmpty (formValues sharedPhotoState) (keyOf (sharedPhotoSec, sharedPhotoSub, photoField)))))
        < ss_minImageCapture sharedPhotoSub
   \<and> validateForm (isoRuntime 0) (Some sharedPhotoSchema) sharedPhotoState
        = Inr (\<lparr> isValid = False, v_errors = [(photoKey, ''Photo must be at most 0 characters'')] \<rparr>,
            sharedPhotoState \<lparr> errors := [(photoKey, ''Photo must be at most 0 characters'')] \<rparr>)"
proof -
  have a: "(optPhotoSec, optPhotoSub, optPhotoField) \<in> set (walkFields optPhotoSchema)
   \<and> s_name optPhotoSec \<in> visibleSections optPhotoState
   \<and> \<not> f_isHidden optPhotoField \<and> f_fieldType optPhotoField = ''IMAGE''
   \<and> 0 < ss_minImageCapture optPhotoSub
   \<and> int (length (listCoerce (lookupOrEmpty (formValues optPhotoState) (keyOf (optPhotoSec, optPhotoSub, optPhotoField)))))
        < ss_minImageCapture optPhotoSub"
    unfolding optPhotoState_eval
    by (simp add: schema_defs walk_defs initialState_def listCoerce_def lookupOrEmpty_def js_truthy_def)
  have b: "(mailPhotoSec, mailPhotoSub, mailPhotoField) \<in> set (walkFields mailPhotoSchema)
   \<and> s_name mailPhotoSec \<in> visibleSections mailPhotoState
   \<and> \<not> f_isHidden mailPhotoField \<and> f_fieldType mailPhotoField = ''IMAGE''
   \<and> 0 < ss_minImageCapture mailPhotoSub
   \<and> int (length (listCoerce (lookupOrEmpty (formValues mailPhotoState) (keyOf (mailPhotoSec, mailPhotoSub, mailPhotoField)))))
        < ss_minImageCapture mailPhotoSub"
    unfolding mailPhotoState_eval
    by (simp add: schema_defs walk_defs initialState_def listCoerce_def lookupOrEmpty_def js_truthy_def)
  have c: "(sharedPhotoSec, sharedPhotoSub, photoField) \<in> set (walkFields sharedPhotoSchema)
   \<and> s_name sharedPhotoSec \<in> visibleSections sharedPhotoState
   \<and> \<not> f_isHidden photoField \<and> f_fieldType photoField = ''IMAGE''
   \<and> 0 < ss_minImageCapture sharedPhotoSub
   \<and> int (length (listCoerce (lookupOrEmpty (formValues sharedPhotoState) (keyOf (sharedPhotoSec, sharedPhotoSub, photoField)))))
        < ss_minImageCapture sharedPhotoSub"
    unfolding sharedPhotoState_eval
    by (simp add: schema_defs walk_defs initialState_def listCoerce_def lookupOrEmpty_def js_truthy_def)
  from a b c optPhotoState_validate mailPhotoState_validate sharedPhotoState_validate
  show ?thesis by blast
qed

end
